theory Spec2Isabelle
  imports Main "HOL-Library.AList" "HOL-Library.Monad_Syntax"
begin

section \<open>Values, responses and events\<close>

text \<open>
  The script \<^verbatim>\<open>scripts/cache-contributors.mjs\<close> works on parsed JSON. A value is one of
  the JSON shapes, or \<open>undefined\<close> (what reading a missing property gives). Numbers are
  kept as integers: the script only tests them for being zero. The properties of an object
  are kept in insertion order.
\<close>

datatype jsval =
    JUndefined
  | JNull
  | JBool bool
  | JNum int
  | JStr string
  | JArr "jsval list"
  | JObj "(string \<times> jsval) list"

text \<open>What \<^verbatim>\<open>if (v)\<close> and \<^verbatim>\<open>!v\<close> test.\<close>

fun truthy :: "jsval \<Rightarrow> bool" where
  "truthy JUndefined = False"
| "truthy JNull = False"
| "truthy (JBool b) = b"
| "truthy (JNum n) = (n \<noteq> 0)"
| "truthy (JStr s) = (s \<noteq> [])"
| "truthy (JArr xs) = True"
| "truthy (JObj kvs) = True"

text \<open>
  \<^verbatim>\<open>v.name\<close> for a name that no built-in prototype defines (\<open>login\<close>, \<open>id\<close>,
  \<open>avatar_url\<close>, \<open>html_url\<close>, \<open>name\<close>, \<open>bio\<close>, \<open>contributions\<close>): a \<open>TypeError\<close>
  (here \<open>None\<close>) on \<open>null\<close> and \<open>undefined\<close>, the own property of an object, and
  \<open>undefined\<close> otherwise.
\<close>

fun get_prop :: "jsval \<Rightarrow> string \<Rightarrow> jsval option" where
  "get_prop JUndefined k = None"
| "get_prop JNull k = None"
| "get_prop (JObj kvs) k = Some (case map_of kvs k of None \<Rightarrow> JUndefined | Some v \<Rightarrow> v)"
| "get_prop v k = Some JUndefined"

datatype error =
    RateLimited
  | HttpError nat
  | FetchFailed
  | RangeError
  | SyntaxError
  | TypeError
  | ReadError

text \<open>
  The \<^verbatim>\<open>X-RateLimit-Reset\<close> header of a response: absent (or empty), present with a
  text that \<^verbatim>\<open>parseInt\<close> turns into NaN, or present with a number of seconds.
\<close>

datatype reset_header = NoReset | ResetNaN | ResetAt int

text \<open>
  One call of \<^verbatim>\<open>fetch\<close>: the promise rejects, or there is a response with its status,
  its reset header and its body; the body is \<open>None\<close> when \<^verbatim>\<open>res.json()\<close> rejects.
\<close>

datatype response = Rejects | Responds nat reset_header "jsval option"

text \<open>What a run does that can be observed: requests, console output, waits, the write.\<close>

datatype event =
    Request string
  | WarnRateLimited int
  | WarnRetry nat nat string
  | Sleep nat
  | WarnUserFailed string error
  | WarnRepoFailed error
  | LogSkip
  | LogCaching
  | WarnNoToken
  | LogFetchingFeatured nat
  | LogProcessed nat nat
  | LogFetchingRepo
  | LogFound nat
  | LogUsingCached
  | WriteCache
  | LogWritten nat nat
  | ErrorFailed error

section \<open>fetchWithRetry\<close>

definition response_ok :: "nat \<Rightarrow> bool" where
  "response_ok st = (200 \<le> st \<and> st \<le> 299)"

text \<open>\<^verbatim>\<open>toISOString\<close> throws a \<open>RangeError\<close> outside the range of a Date.\<close>

definition valid_time :: "int \<Rightarrow> bool" where
  "valid_time ms = (- 8640000000000000 \<le> ms \<and> ms \<le> 8640000000000000)"

text \<open>
  The body of the \<^verbatim>\<open>try\<close> block: \<open>Inl\<close> is an error thrown inside the block, \<open>Inr\<close> the
  promise \<^verbatim>\<open>res.json()\<close> that the block returns without awaiting it.
\<close>

fun attempt :: "response \<Rightarrow> event list \<times> (error + jsval option)" where
  "attempt Rejects = ([], Inl FetchFailed)"
| "attempt (Responds st hdr b) =
    (if st = 403 then
       (case hdr of
          NoReset \<Rightarrow> ([], Inl RateLimited)
        | ResetNaN \<Rightarrow> ([], Inl RangeError)
        | ResetAt s \<Rightarrow>
            if valid_time (s * 1000) then ([WarnRateLimited s], Inl RateLimited)
            else ([], Inl RangeError))
     else if \<not> response_ok st then ([], Inl (HttpError st))
     else ([], Inr b))"

text \<open>
  The \<^verbatim>\<open>for\<close> loop from index \<open>i\<close>; \<open>net i\<close> is the answer to the attempt of index \<open>i\<close>.
  A rejection of \<^verbatim>\<open>res.json()\<close> is not caught by the \<^verbatim>\<open>catch\<close> (the promise is
  returned, not awaited), so it ends the call at once. When the loop runs out without
  returning, the function returns \<open>undefined\<close>.
\<close>

function fetchWithRetry_from ::
  "string \<Rightarrow> nat \<Rightarrow> (nat \<Rightarrow> response) \<Rightarrow> nat \<Rightarrow> event list \<times> (error + jsval)" where
  "fetchWithRetry_from url retries net i =
    (if i < retries then
       (case attempt (net i) of
          (evs, Inr (Some v)) \<Rightarrow> (Request url # evs, Inr v)
        | (evs, Inr None) \<Rightarrow> (Request url # evs, Inl SyntaxError)
        | (evs, Inl e) \<Rightarrow>
            if i = retries - 1 then (Request url # evs, Inl e)
            else
              (case fetchWithRetry_from url retries net (i + 1) of
                 (evs', r) \<Rightarrow>
                   (Request url # evs
                      @ [WarnRetry (i + 1) retries url, Sleep (1000 * (i + 1))] @ evs', r)))
     else ([], Inr JUndefined))"
  by pat_completeness auto
termination
  by (relation "measure (\<lambda>(url, retries, net, i). retries - i)") auto

declare fetchWithRetry_from.simps [simp del]

definition fetchWithRetry :: "string \<Rightarrow> (nat \<Rightarrow> response) \<Rightarrow> event list \<times> (error + jsval)" where
  "fetchWithRetry url net = fetchWithRetry_from url 3 net 0"

section \<open>fetchGitHubUser\<close>

definition users_url :: "string \<Rightarrow> string" where
  "users_url username = ''https://api.github.com/users/'' @ username"

text \<open>The object literal built from \<open>data\<close>; \<open>None\<close> is the \<open>TypeError\<close> of reading a
  property of \<open>null\<close> or \<open>undefined\<close>.\<close>

definition project_user :: "jsval \<Rightarrow> jsval option" where
  "project_user d =
    do {
      login \<leftarrow> get_prop d ''login'';
      ident \<leftarrow> get_prop d ''id'';
      avatar_url \<leftarrow> get_prop d ''avatar_url'';
      html_url \<leftarrow> get_prop d ''html_url'';
      name \<leftarrow> get_prop d ''name'';
      bio \<leftarrow> get_prop d ''bio'';
      Some (JObj [(''login'', login), (''id'', ident), (''avatar_url'', avatar_url),
                  (''html_url'', html_url), (''name'', name), (''bio'', bio)])
    }"

text \<open>Every failure is caught, logged and turned into \<open>null\<close>.\<close>

definition fetchGitHubUser :: "(nat \<Rightarrow> response) \<Rightarrow> string \<Rightarrow> event list \<times> jsval" where
  "fetchGitHubUser net username =
    (case fetchWithRetry (users_url username) net of
       (evs, Inl e) \<Rightarrow> (evs @ [WarnUserFailed username e], JNull)
     | (evs, Inr d) \<Rightarrow>
         (case project_user d of
            None \<Rightarrow> (evs @ [WarnUserFailed username TypeError], JNull)
          | Some p \<Rightarrow> (evs, p)))"

section \<open>fetchRepoContributors\<close>

definition perPage :: nat where
  "perPage = 100"

text \<open>The decimal text of a number, as a template literal prints it.\<close>

function string_of_nat :: "nat \<Rightarrow> string" where
  "string_of_nat n =
    (if n < 10 then [''0123456789'' ! n]
     else string_of_nat (n div 10) @ [''0123456789'' ! (n mod 10)])"
  by pat_completeness auto
termination
  by (relation "measure (\<lambda>n. n)") auto

declare string_of_nat.simps [simp del]

definition contributors_url :: "nat \<Rightarrow> string" where
  "contributors_url page =
    ''https://api.github.com/repos/ublue-os/aurora/contributors?per_page=''
      @ string_of_nat perPage @ ''&page='' @ string_of_nat page"

text \<open>\<^verbatim>\<open>data.length === 0\<close> for a truthy \<open>data\<close>.\<close>

fun length_is_zero :: "jsval \<Rightarrow> bool" where
  "length_is_zero (JArr xs) = (xs = [])"
| "length_is_zero (JStr s) = (s = [])"
| "length_is_zero (JObj kvs) = (map_of kvs ''length'' = Some (JNum 0))"
| "length_is_zero v = False"

text \<open>\<^verbatim>\<open>...data\<close>: the elements of an array, the characters of a string, and a \<open>TypeError\<close>
  (here \<open>None\<close>) on a value that is not iterable.\<close>

fun spread :: "jsval \<Rightarrow> jsval list option" where
  "spread (JArr xs) = Some xs"
| "spread (JStr s) = Some (map (\<lambda>c. JStr [c]) s)"
| "spread v = None"

text \<open>
  The \<^verbatim>\<open>while (true)\<close> loop, with the events so far and \<open>allContributors\<close>. It need not
  end: the result is \<open>None\<close> when it does not. \<open>net page i\<close> is the answer to the attempt of
  index \<open>i\<close> at the page.
\<close>

partial_function (option) fetch_pages ::
  "(nat \<Rightarrow> nat \<Rightarrow> response) \<Rightarrow> nat \<Rightarrow> event list \<Rightarrow> jsval list
    \<Rightarrow> (event list \<times> (error + jsval list)) option" where
  "fetch_pages net page tr allContributors =
    (case fetchWithRetry (contributors_url page) (net page) of
       (evs, Inl e) \<Rightarrow> Some (tr @ evs, Inl e)
     | (evs, Inr d) \<Rightarrow>
         if \<not> truthy d \<or> length_is_zero d then Some (tr @ evs, Inr allContributors)
         else
           (case spread d of
              None \<Rightarrow> Some (tr @ evs, Inl TypeError)
            | Some xs \<Rightarrow>
                if length xs < perPage then Some (tr @ evs, Inr (allContributors @ xs))
                else fetch_pages net (page + 1) (tr @ evs) (allContributors @ xs)))"

declare fetch_pages.simps [code]

definition project_contributor :: "jsval \<Rightarrow> jsval option" where
  "project_contributor c =
    do {
      login \<leftarrow> get_prop c ''login'';
      ident \<leftarrow> get_prop c ''id'';
      avatar_url \<leftarrow> get_prop c ''avatar_url'';
      html_url \<leftarrow> get_prop c ''html_url'';
      contributions \<leftarrow> get_prop c ''contributions'';
      Some (JObj [(''login'', login), (''id'', ident), (''avatar_url'', avatar_url),
                  (''html_url'', html_url), (''contributions'', contributions)])
    }"

text \<open>Any error of the loop or of the projection is caught: a warning and the empty list.\<close>

definition fetchRepoContributors ::
  "(nat \<Rightarrow> nat \<Rightarrow> response) \<Rightarrow> (event list \<times> jsval list) option" where
  "fetchRepoContributors net =
    (case fetch_pages net 1 [] [] of
       None \<Rightarrow> None
     | Some (tr, Inl e) \<Rightarrow> Some (tr @ [WarnRepoFailed e], [])
     | Some (tr, Inr allContributors) \<Rightarrow>
         (case those (map project_contributor allContributors) of
            None \<Rightarrow> Some (tr @ [WarnRepoFailed TypeError], [])
          | Some cs \<Rightarrow> Some (tr, cs)))"

section \<open>The mapping of featured users\<close>

text \<open>
  \<open>githubUsers\<close> starts as \<^verbatim>\<open>{}\<close>, an object whose prototype is \<open>Object.prototype\<close>.
  Reading \<^verbatim>\<open>githubUsers[k]\<close> finds an own property first and an inherited one after.
  These are the names that \<open>Object.prototype\<close> defines in Node.js; each is a function,
  but \<open>__proto__\<close>, an accessor that reads and replaces the prototype of the object.
\<close>

definition object_prototype_names :: "string list" where
  "object_prototype_names =
    [''constructor'', ''__defineGetter__'', ''__defineSetter__'', ''hasOwnProperty'',
     ''__lookupGetter__'', ''__lookupSetter__'', ''isPrototypeOf'', ''propertyIsEnumerable'',
     ''toString'', ''valueOf'', ''__proto__'', ''toLocaleString'']"

text \<open>
  The own properties, and the properties of the object that an assignment to \<open>__proto__\<close>
  has made the prototype (\<open>None\<close>: the prototype is still \<open>Object.prototype\<close>).
\<close>

record users_obj =
  own_props :: "(string \<times> jsval) list"
  prototype :: "(string \<times> jsval) list option"

definition empty_obj :: users_obj where
  "empty_obj = \<lparr>own_props = [], prototype = None\<rparr>"

text \<open>
  Whether \<^verbatim>\<open>githubUsers[k]\<close> is truthy. Under \<open>__proto__\<close> the accessor gives the
  prototype, an object; the object never has an own property of that name.
\<close>

definition inherited_truthy :: "users_obj \<Rightarrow> string \<Rightarrow> bool" where
  "inherited_truthy g k =
    (case prototype g of
       None \<Rightarrow> k \<in> set object_prototype_names
     | Some pfields \<Rightarrow>
         (case map_of pfields k of
            Some v \<Rightarrow> truthy v
          | None \<Rightarrow> k \<in> set object_prototype_names))"

definition obj_truthy :: "users_obj \<Rightarrow> string \<Rightarrow> bool" where
  "obj_truthy g k =
    (k = ''__proto__''
     \<or> (case map_of (own_props g) k of
           Some v \<Rightarrow> truthy v
         | None \<Rightarrow> inherited_truthy g k))"

text \<open>
  \<^verbatim>\<open>githubUsers[k] = v\<close>. Under the name \<open>__proto__\<close> it calls the setter of the
  accessor: an object becomes the prototype, a primitive is ignored, and no own property
  is made (the values that the script assigns under this name are the objects of
  \<open>project_user\<close>). Under any other name the own property is replaced where it is, or
  added last.
\<close>

definition obj_assign :: "users_obj \<Rightarrow> string \<Rightarrow> jsval \<Rightarrow> users_obj" where
  "obj_assign g k v =
    (if k = ''__proto__'' then
       (case v of JObj pfields \<Rightarrow> g\<lparr>prototype := Some pfields\<rparr> | _ \<Rightarrow> g)
     else g\<lparr>own_props := AList.update k v (own_props g)\<rparr>)"

section \<open>The batches of featured users\<close>

record contributor =
  github :: string

definition batchSize :: nat where
  "batchSize = 10"

text \<open>\<^verbatim>\<open>batch.forEach\<close>: a result that is truthy is stored under the login of its entry.\<close>

definition attach :: "contributor list \<Rightarrow> jsval list \<Rightarrow> users_obj \<Rightarrow> users_obj" where
  "attach batch results g =
    fold (\<lambda>(c, r) g. if truthy r then obj_assign g (github c) r else g) (zip batch results) g"

text \<open>
  The \<^verbatim>\<open>for\<close> loop over the batches from index \<open>i\<close>. \<open>net j\<close> answers the attempts of the
  fetch for the entry at position \<open>j\<close> of the list. The fetches of a batch run together
  under \<^verbatim>\<open>Promise.all\<close>; their events are listed one fetch after the other, in the
  order of the batch.
\<close>

function fetch_batches ::
  "(nat \<Rightarrow> nat \<Rightarrow> response) \<Rightarrow> contributor list \<Rightarrow> nat \<Rightarrow> users_obj
    \<Rightarrow> event list \<times> users_obj" where
  "fetch_batches net cs i g =
    (if i < length cs then
       (let batch = take batchSize (drop i cs);
            fetched = map (\<lambda>(j, c). fetchGitHubUser (net (i + j)) (github c))
                        (zip [0..<length batch] batch);
            g' = attach batch (map snd fetched) g;
            evs = concat (map fst fetched)
                    @ [LogProcessed (min (i + batchSize) (length cs)) (length cs)]
                    @ (if i + batchSize < length cs then [Sleep 500] else [])
        in case fetch_batches net cs (i + batchSize) g' of
             (evs', g'') \<Rightarrow> (evs @ evs', g''))
     else ([], g))"
  by pat_completeness auto
termination
  by (relation "measure (\<lambda>(net, cs, i, g). length cs - i)") (auto simp: batchSize_def)

declare fetch_batches.simps [simp del]

section \<open>The cache file and the run\<close>

text \<open>
  The parsed cache file: \<open>generatedAt\<close> is any value (\<open>undefined\<close> when missing),
  \<open>githubUsers\<close> is an object or is \<open>None\<close> (missing or \<open>null\<close>), \<open>repoContributors\<close> is an
  array or is \<open>None\<close> (missing or \<open>null\<close>). A file that is missing, is not JSON or holds
  \<open>null\<close> is \<open>None\<close>: \<^verbatim>\<open>loadExistingCache\<close> gives \<open>null\<close> for it.
\<close>

record snapshot =
  generatedAt :: jsval
  githubUsers :: "(string \<times> jsval) list option"
  repoContributors :: "jsval list option"

text \<open>
  The file of featured contributors: it cannot be read, it is not JSON, it has no
  \<open>contributors\<close> list, or it has one.
\<close>

datatype input_file = Unreadable | NotJson | NoList | Featured "contributor list"

record files =
  contributors_json :: input_file
  cache_json :: "snapshot option"

text \<open>
  What a run is given from outside: the flag \<^verbatim>\<open>--force\<close>, whether \<open>GITHUB_TOKEN\<close> is set,
  \<^verbatim>\<open>Date.now()\<close>, what \<^verbatim>\<open>new Date(v).getTime()\<close> gives (\<open>None\<close> for NaN), and the
  text \<^verbatim>\<open>new Date().toISOString()\<close> at the time of the write.
\<close>

record env =
  force :: bool
  has_token :: bool
  now_ms :: int
  date_ms :: "jsval \<Rightarrow> int option"
  now_iso :: string

record network =
  users_net :: "nat \<Rightarrow> nat \<Rightarrow> response"
  repo_net :: "nat \<Rightarrow> nat \<Rightarrow> response"

record outcome =
  exit_code :: nat
  files_after :: files
  trace :: "event list"

definition CACHE_MAX_AGE_MS :: int where
  "CACHE_MAX_AGE_MS = 24 * 60 * 60 * 1000"

definition isCacheValid :: "env \<Rightarrow> snapshot option \<Rightarrow> bool" where
  "isCacheValid e cache =
    (case cache of
       None \<Rightarrow> False
     | Some c \<Rightarrow>
         if \<not> truthy (generatedAt c) then False
         else
           (let hasData =
                  (length (case githubUsers c of None \<Rightarrow> [] | Some kvs \<Rightarrow> kvs) > 0
                   \<or> length (case repoContributors c of None \<Rightarrow> [] | Some xs \<Rightarrow> xs) > 0)
            in hasData
               \<and> (case date_ms e (generatedAt c) of
                    None \<Rightarrow> False
                  | Some t \<Rightarrow> now_ms e - t < CACHE_MAX_AGE_MS)))"

text \<open>The loop over \<^verbatim>\<open>Object.entries(existingUsers)\<close>.\<close>

definition merge_users :: "(string \<times> jsval) list \<Rightarrow> users_obj \<Rightarrow> users_obj" where
  "merge_users existingUsers g =
    fold (\<lambda>(username, d) g.
            if \<not> obj_truthy g username \<and> truthy d then obj_assign g username d else g)
         existingUsers g"

text \<open>Whether the cached list replaces the fetched one.\<close>

definition use_cached_repo :: "jsval list \<Rightarrow> snapshot \<Rightarrow> bool" where
  "use_cached_repo repo c =
    (length repo = 0
     \<and> (case repoContributors c of None \<Rightarrow> False | Some xs \<Rightarrow> length xs > 0))"

definition merge_repo :: "jsval list \<Rightarrow> snapshot \<Rightarrow> jsval list" where
  "merge_repo repo c =
    (if use_cached_repo repo c then
       (case repoContributors c of None \<Rightarrow> repo | Some xs \<Rightarrow> xs)
     else repo)"

text \<open>What \<^verbatim>\<open>JSON.parse(JSON.stringify(v))\<close> gives: a property that is \<open>undefined\<close> is
  dropped, an element that is \<open>undefined\<close> becomes \<open>null\<close>.\<close>

fun json_roundtrip :: "jsval \<Rightarrow> jsval" where
  "json_roundtrip (JArr xs) =
     JArr (map (\<lambda>x. if x = JUndefined then JNull else json_roundtrip x) xs)"
| "json_roundtrip (JObj kvs) =
     JObj (map (\<lambda>(k, v). (k, json_roundtrip v)) (filter (\<lambda>(k, v). v \<noteq> JUndefined) kvs))"
| "json_roundtrip v = v"

text \<open>The snapshot that a later run reads back from what this run writes.\<close>

definition written_snapshot :: "env \<Rightarrow> users_obj \<Rightarrow> jsval list \<Rightarrow> snapshot" where
  "written_snapshot e g repo =
    \<lparr>generatedAt = JStr (now_iso e),
     githubUsers =
       Some (map (\<lambda>(k, v). (k, json_roundtrip v))
               (filter (\<lambda>(k, v). v \<noteq> JUndefined) (own_props g))),
     repoContributors =
       Some (map (\<lambda>x. if x = JUndefined then JNull else json_roundtrip x) repo)\<rparr>"

text \<open>An error that reaches \<^verbatim>\<open>main().catch\<close>: it is printed and the process exits with 1.\<close>

definition fatal :: "files \<Rightarrow> event list \<Rightarrow> error \<Rightarrow> outcome" where
  "fatal fs tr err = \<lparr>exit_code = 1, files_after = fs, trace = tr @ [ErrorFailed err]\<rparr>"

text \<open>\<^verbatim>\<open>main\<close> after the check of the cache. \<open>None\<close>: the pagination does not end.\<close>

definition regenerate :: "env \<Rightarrow> files \<Rightarrow> network \<Rightarrow> outcome option" where
  "regenerate e fs net =
    (let tr0 = LogCaching # (if has_token e then [] else [WarnNoToken]);
         existingCache = cache_json fs
     in case contributors_json fs of
          Unreadable \<Rightarrow> Some (fatal fs tr0 ReadError)
        | NotJson \<Rightarrow> Some (fatal fs tr0 SyntaxError)
        | NoList \<Rightarrow> Some (fatal fs tr0 TypeError)
        | Featured cs \<Rightarrow>
            (case fetch_batches (users_net net) cs 0 empty_obj of
               (tr1, fetched) \<Rightarrow>
                 (case fetchRepoContributors (repo_net net) of
                    None \<Rightarrow> None
                  | Some (tr2, repo) \<Rightarrow>
                      (let mergedUsers =
                             (case existingCache of
                                None \<Rightarrow> fetched
                              | Some c \<Rightarrow>
                                  merge_users
                                    (case githubUsers c of None \<Rightarrow> [] | Some kvs \<Rightarrow> kvs)
                                    fetched);
                           cached =
                             (case existingCache of
                                None \<Rightarrow> False
                              | Some c \<Rightarrow> use_cached_repo repo c);
                           mergedRepo =
                             (case existingCache of
                                None \<Rightarrow> repo
                              | Some c \<Rightarrow> merge_repo repo c)
                       in Some
                            \<lparr>exit_code = 0,
                             files_after =
                               fs\<lparr>cache_json :=
                                    Some (written_snapshot e mergedUsers mergedRepo)\<rparr>,
                             trace =
                               tr0 @ [LogFetchingFeatured (length cs)] @ tr1
                                 @ [LogFetchingRepo] @ tr2 @ [LogFound (length repo)]
                                 @ (if cached then [LogUsingCached] else [])
                                 @ [WriteCache,
                                    LogWritten (length (own_props mergedUsers))
                                      (length mergedRepo)]\<rparr>))))"

definition main :: "env \<Rightarrow> files \<Rightarrow> network \<Rightarrow> outcome option" where
  "main e fs net =
    (if \<not> force e \<and> isCacheValid e (cache_json fs) then
       Some \<lparr>exit_code = 0, files_after = fs, trace = [LogSkip]\<rparr>
     else regenerate e fs net)"

section \<open>Observations on a run\<close>

text \<open>The URLs requested and the waits, in order.\<close>

definition requests :: "event list \<Rightarrow> string list" where
  "requests tr = concat (map (\<lambda>ev. case ev of Request u \<Rightarrow> [u] | _ \<Rightarrow> []) tr)"

definition sleeps :: "event list \<Rightarrow> nat list" where
  "sleeps tr = concat (map (\<lambda>ev. case ev of Sleep ms \<Rightarrow> [ms] | _ \<Rightarrow> []) tr)"

text \<open>The error that an attempt throws inside the \<^verbatim>\<open>try\<close> block, if it throws one.\<close>

definition thrown :: "response \<Rightarrow> error option" where
  "thrown r = (case snd (attempt r) of Inl e \<Rightarrow> Some e | Inr b \<Rightarrow> None)"

text \<open>The batches that a run went through: each one ends with its \<open>Processed\<close> line.\<close>

definition batch_stages :: "event list \<Rightarrow> nat" where
  "batch_stages tr =
    length (filter (\<lambda>ev. case ev of LogProcessed a b \<Rightarrow> True | _ \<Rightarrow> False) tr)"

text \<open>What each entry of the list gets from its own fetch, with no batches.\<close>

definition fetch_results :: "(nat \<Rightarrow> nat \<Rightarrow> response) \<Rightarrow> contributor list \<Rightarrow> jsval list" where
  "fetch_results net cs =
    map (\<lambda>(j, c). snd (fetchGitHubUser (net j) (github c))) (zip [0..<length cs] cs)"

text \<open>A page that the server gives at the first attempt, as an array.\<close>

definition page_is :: "(nat \<Rightarrow> nat \<Rightarrow> response) \<Rightarrow> nat \<Rightarrow> jsval list \<Rightarrow> bool" where
  "page_is net p xs =
    (case net p 0 of
       Responds st h (Some (JArr ys)) \<Rightarrow> response_ok st \<and> ys = xs
     | _ \<Rightarrow> False)"

text \<open>A test server that answers page \<open>p\<close> with an array of the \<open>p\<close>-th size of a list,
  and with an empty array after the list.\<close>

definition mock_api :: "nat list \<Rightarrow> nat \<Rightarrow> nat \<Rightarrow> response" where
  "mock_api sizes p i =
    Responds 200 NoReset
      (Some (JArr (if 1 \<le> p \<and> p \<le> length sizes
                   then replicate (sizes ! (p - 1)) (JObj [(''login'', JStr ''x'')])
                   else [])))"

text \<open>The logins of the snapshot that a run leaves in the cache file, and the entries of
  the snapshot that a run finds there.\<close>

definition persisted_keys :: "outcome \<Rightarrow> string list" where
  "persisted_keys out =
    (case cache_json (files_after out) of
       None \<Rightarrow> []
     | Some c \<Rightarrow> (case githubUsers c of None \<Rightarrow> [] | Some kvs \<Rightarrow> map fst kvs))"

definition cached_users :: "files \<Rightarrow> (string \<times> jsval) list" where
  "cached_users fs =
    (case cache_json fs of
       None \<Rightarrow> []
     | Some c \<Rightarrow> (case githubUsers c of None \<Rightarrow> [] | Some kvs \<Rightarrow> kvs))"

section \<open>Example inputs\<close>

text \<open>A clock that knows one timestamp, a cache written at that time with one profile,
  and a server that refuses every profile and has one short page of contributors.\<close>

definition example_date :: "jsval \<Rightarrow> int option" where
  "example_date v =
    (if v = JStr ''2024-01-02T00:00:00.000Z'' then Some 1704153600000 else None)"

definition example_env :: env where
  "example_env =
    \<lparr>force = False, has_token = True, now_ms = 1704157200000,
     date_ms = example_date, now_iso = ''2024-01-02T01:00:00.000Z''\<rparr>"

definition example_profile :: "string \<Rightarrow> jsval" where
  "example_profile l =
    JObj [(''login'', JStr l), (''id'', JNum 1), (''avatar_url'', JStr ''a''),
          (''html_url'', JStr ''h''), (''name'', JStr ''n''), (''bio'', JNull)]"

definition example_cache :: snapshot where
  "example_cache =
    \<lparr>generatedAt = JStr ''2024-01-02T00:00:00.000Z'',
     githubUsers = Some [(''octocat'', example_profile ''octocat'')],
     repoContributors = Some []\<rparr>"

definition example_net :: network where
  "example_net = \<lparr>users_net = (\<lambda>j i. Rejects), repo_net = mock_api [2]\<rparr>"

text \<open>Twelve featured contributors, and a server that refuses the second one.\<close>

definition example_featured :: "contributor list" where
  "example_featured =
    map (\<lambda>l. \<lparr>github = l\<rparr>)
      [''u0'', ''u1'', ''u2'', ''u3'', ''u4'', ''u5'', ''u6'', ''u7'', ''u8'', ''u9'',
       ''u10'', ''u11'']"

definition example_users_net :: "nat \<Rightarrow> nat \<Rightarrow> response" where
  "example_users_net j i =
    (if j = 1 then Rejects else Responds 200 NoReset (Some (example_profile ''x'')))"

section \<open>Retry bound and backoff\<close>

lemma requests_append: "requests (xs @ ys) = requests xs @ requests ys"
  by (simp add: requests_def)

lemma requests_Cons:
  "requests (x # xs) = (case x of Request u \<Rightarrow> [u] | _ \<Rightarrow> []) @ requests xs"
  by (simp add: requests_def)

lemma requests_Nil: "requests [] = []"
  by (simp add: requests_def)

lemma sleeps_append: "sleeps (xs @ ys) = sleeps xs @ sleeps ys"
  by (simp add: sleeps_def)

lemma sleeps_Cons:
  "sleeps (x # xs) = (case x of Sleep ms \<Rightarrow> [ms] | _ \<Rightarrow> []) @ sleeps xs"
  by (simp add: sleeps_def)

lemma sleeps_Nil: "sleeps [] = []"
  by (simp add: sleeps_def)

lemma requests_attempt: "requests (fst (attempt r)) = []"
  by (cases r) (auto simp: requests_def split: reset_header.splits)

lemma sleeps_attempt: "sleeps (fst (attempt r)) = []"
  by (cases r) (auto simp: sleeps_def split: reset_header.splits)

text \<open>An attempt throws exactly when \<^verbatim>\<open>fetch\<close> rejects or the status is not a 2xx one.\<close>

lemma thrown_iff:
  "thrown r \<noteq> None \<longleftrightarrow> (case r of Rejects \<Rightarrow> True | Responds st h b \<Rightarrow> \<not> response_ok st)"
  by (cases r) (auto simp: thrown_def response_ok_def split: reset_header.splits)

lemma retry_last:
  assumes "thrown (net i) = Some e" and "Suc i = n"
  shows "fetchWithRetry_from url n net i = (Request url # fst (attempt (net i)), Inl e)"
  using assms
  by (subst fetchWithRetry_from.simps)
     (auto simp: thrown_def split: prod.splits sum.splits option.splits)

lemma retry_step:
  assumes "thrown (net i) = Some e" and "Suc i < n"
  shows "fetchWithRetry_from url n net i =
    (Request url # fst (attempt (net i))
       @ [WarnRetry (i + 1) n url, Sleep (1000 * (i + 1))]
       @ fst (fetchWithRetry_from url n net (i + 1)),
     snd (fetchWithRetry_from url n net (i + 1)))"
  using assms
  by (subst fetchWithRetry_from.simps)
     (auto simp: thrown_def split: prod.splits sum.splits option.splits)

text \<open>With any bound \<open>n\<close>: \<open>n - i\<close> attempts from index \<open>i\<close> on, and the wait before the
  attempt of index \<open>k\<close> is \<open>1000 * k\<close> milliseconds.\<close>

lemma retry_all_thrown:
  assumes "\<forall>j. i \<le> j \<and> j < n \<longrightarrow> thrown (net j) \<noteq> None" and "i < n"
  shows "requests (fst (fetchWithRetry_from url n net i)) = replicate (n - i) url
    \<and> sleeps (fst (fetchWithRetry_from url n net i)) = map (\<lambda>k. 1000 * k) [Suc i..<n]
    \<and> snd (fetchWithRetry_from url n net i) = Inl (the (thrown (net (n - 1))))"
  using assms
proof (induction "n - i" arbitrary: i)
  case 0
  then show ?case by simp
next
  case (Suc d)
  from Suc.prems obtain e where e: "thrown (net i) = Some e"
    by (metis not_None_eq order_refl)
  show ?case
  proof (cases "Suc i = n")
    case True
    then have n: "n - 1 = i" "n - i = Suc 0" "[Suc i..<n] = []" by simp_all
    have "fetchWithRetry_from url n net i = (Request url # fst (attempt (net i)), Inl e)"
      using e True by (rule retry_last)
    with n e show ?thesis
      by (simp add: requests_Cons requests_attempt sleeps_Cons sleeps_attempt)
  next
    case False
    with Suc.prems have lt: "Suc i < n" by simp
    have d: "d = n - Suc i" using Suc.hyps(2) by simp
    have "\<forall>j. Suc i \<le> j \<and> j < n \<longrightarrow> thrown (net j) \<noteq> None"
      using Suc.prems(1) by simp
    from Suc.hyps(1) [OF d this lt]
    have ih: "requests (fst (fetchWithRetry_from url n net (Suc i))) = replicate (n - Suc i) url"
      "sleeps (fst (fetchWithRetry_from url n net (Suc i))) = map (\<lambda>k. 1000 * k) [Suc (Suc i)..<n]"
      "snd (fetchWithRetry_from url n net (Suc i)) = Inl (the (thrown (net (n - 1))))"
      by simp_all
    have rep: "url # replicate (n - Suc i) url = replicate (n - i) url"
      using lt by (metis Suc_diff_Suc Suc_lessD replicate_Suc)
    have upt: "[Suc i..<n] = Suc i # [Suc (Suc i)..<n]"
      using lt by (simp add: upt_conv_Cons)
    show ?thesis
      using ih rep upt
      using retry_step [of net i e n url] e lt
      by (simp add: requests_Cons requests_append requests_attempt
          sleeps_Cons sleeps_append sleeps_attempt)
  qed
qed

text \<open>
  Claim C4. When every attempt at a URL throws (the fetch rejects, or the status is not a
  2xx one), \<open>fetchWithRetry\<close> makes exactly three requests and then fails with the error
  of the third attempt. After a failed attempt that is not the last it logs a warning and
  waits: 1000 ms before the attempt of index 1 and 2000 ms before the attempt of
  index 2, that is \<open>1000 * i\<close> ms before the attempt of index \<open>i\<close>, counted from 0 as the
  loop does. Nothing is waited after the third failure.
\<close>

theorem fetchWithRetry_always_fails:
  assumes "\<forall>i<3. thrown (net i) \<noteq> None"
  shows "fetchWithRetry url net =
      (Request url # fst (attempt (net 0)) @ [WarnRetry 1 3 url, Sleep (1000 * 1)]
         @ Request url # fst (attempt (net 1)) @ [WarnRetry 2 3 url, Sleep (1000 * 2)]
         @ Request url # fst (attempt (net 2)),
       Inl (the (thrown (net 2))))
    \<and> requests (fst (fetchWithRetry url net)) = [url, url, url]
    \<and> sleeps (fst (fetchWithRetry url net)) = map (\<lambda>i. 1000 * i) [1..<3]"
proof -
  from assms obtain e0 e1 e2 where
    e: "thrown (net 0) = Some e0" "thrown (net 1) = Some e1" "thrown (net 2) = Some e2"
    by (metis not_None_eq numeral_2_eq_2 numeral_3_eq_3 zero_less_Suc less_Suc_eq One_nat_def)
  have 2: "fetchWithRetry_from url 3 net 2 = (Request url # fst (attempt (net 2)), Inl e2)"
    using e(3) by (rule retry_last) simp
  have 1: "fetchWithRetry_from url 3 net 1 =
      (Request url # fst (attempt (net 1)) @ [WarnRetry 2 3 url, Sleep 2000]
         @ Request url # fst (attempt (net 2)), Inl e2)"
    using retry_step [of net 1 e1 3 url] e(2) 2 by (simp add: numeral_2_eq_2)
  have 0: "fetchWithRetry url net =
      (Request url # fst (attempt (net 0)) @ [WarnRetry 1 3 url, Sleep 1000]
         @ Request url # fst (attempt (net 1)) @ [WarnRetry 2 3 url, Sleep 2000]
         @ Request url # fst (attempt (net 2)), Inl e2)"
    using retry_step [of net 0 e0 3 url] e 1 by (simp add: fetchWithRetry_def)
  have upt: "[1..<3] = [1, 2::nat]"
    by (simp add: upt_conv_Cons)
  show ?thesis
    using e(3) upt
    by (simp add: 0 requests_Cons requests_append requests_attempt requests_Nil
        sleeps_Cons sleeps_append sleeps_attempt sleeps_Nil)
qed

theorem fetchWithRetry_always_fails_witness:
  "thrown (Responds 500 NoReset None) \<noteq> None
   \<and> fetchWithRetry ''u'' (\<lambda>i. Responds 500 NoReset None) =
       ([Request ''u'', WarnRetry 1 3 ''u'', Sleep 1000,
         Request ''u'', WarnRetry 2 3 ''u'', Sleep 2000,
         Request ''u''], Inl (HttpError 500))
   \<and> requests (fst (fetchWithRetry ''u'' (\<lambda>i. Responds 500 NoReset None))) = [''u'', ''u'', ''u'']
   \<and> sleeps (fst (fetchWithRetry ''u'' (\<lambda>i. Responds 500 NoReset None))) = [1000, 2000]"
proof -
  have h: "\<forall>i<3. thrown ((\<lambda>i. Responds 500 NoReset None) i) \<noteq> None"
    by (simp add: thrown_def response_ok_def)
  have upt: "[1..<3] = [1, 2::nat]"
    by (simp add: upt_conv_Cons)
  show ?thesis
    using h fetchWithRetry_always_fails [OF h, of "''u''"] upt
    by (simp add: thrown_def response_ok_def requests_def sleeps_def)
qed

section \<open>Pagination\<close>

lemma fetch_first_ok:
  assumes "page_is net p xs"
  shows "fetchWithRetry url (net p) = ([Request url], Inr (JArr xs))"
  using assms
  unfolding fetchWithRetry_def page_is_def
  by (subst fetchWithRetry_from.simps)
     (auto simp: response_ok_def split: response.splits option.splits jsval.splits)

lemma pages_step_full:
  assumes "page_is net p xs" and "perPage \<le> length xs"
  shows "fetch_pages net p tr acc =
    fetch_pages net (p + 1) (tr @ [Request (contributors_url p)]) (acc @ xs)"
  using assms
  by (subst fetch_pages.simps) (auto simp: fetch_first_ok perPage_def)

lemma pages_step_last:
  assumes "page_is net p ys" and "length ys < perPage"
  shows "fetch_pages net p tr acc = Some (tr @ [Request (contributors_url p)], Inr (acc @ ys))"
  using assms
  by (subst fetch_pages.simps) (auto simp: fetch_first_ok)

lemma pages_run:
  assumes "\<forall>q. p \<le> q \<and> q < n \<longrightarrow> (\<exists>xs. page_is net q xs \<and> perPage \<le> length xs)"
    and "page_is net n ys" and "length ys < perPage" and "p \<le> n"
  shows "\<exists>all. fetch_pages net p tr acc =
    Some (tr @ map (\<lambda>q. Request (contributors_url q)) [p..<Suc n], Inr all)"
  using assms
proof (induction "n - p" arbitrary: p tr acc)
  case 0
  then have "p = n" by simp
  with 0 show ?case
    by (simp add: pages_step_last)
next
  case (Suc d)
  then have lt: "p < n" by simp
  with Suc.prems(1) obtain xs where xs: "page_is net p xs" "perPage \<le> length xs"
    by blast
  have d: "d = n - (p + 1)" using Suc.hyps(2) by simp
  have rest: "\<forall>q. p + 1 \<le> q \<and> q < n \<longrightarrow> (\<exists>xs. page_is net q xs \<and> perPage \<le> length xs)"
    using Suc.prems(1) by simp
  have le: "p + 1 \<le> n" using lt by simp
  from Suc.hyps(1) [OF d rest Suc.prems(2) Suc.prems(3) le,
      of "tr @ [Request (contributors_url p)]" "acc @ xs"]
  obtain all where "fetch_pages net (p + 1) (tr @ [Request (contributors_url p)]) (acc @ xs) =
    Some ((tr @ [Request (contributors_url p)])
            @ map (\<lambda>q. Request (contributors_url q)) [p + 1..<Suc n], Inr all)"
    by blast
  moreover have "[p..<Suc n] = p # [p + 1..<Suc n]"
    using lt by (simp add: upt_conv_Cons)
  ultimately show ?case
    by (simp add: pages_step_full [OF xs])
qed

lemma requests_map_Request: "requests (map (\<lambda>q. Request (f q)) ps) = map f ps"
  by (induction ps) (simp_all add: requests_def)

lemma page_is_mock:
  "page_is (mock_api sizes) p
     (if 1 \<le> p \<and> p \<le> length sizes
      then replicate (sizes ! (p - 1)) (JObj [(''login'', JStr ''x'')]) else [])"
  by (simp add: page_is_def mock_api_def response_ok_def)

text \<open>
  Claim C5. The pages are asked for with \<open>per_page=100\<close>, one after the other from page 1.
  When pages \<open>1\<close> to \<open>n - 1\<close> come back with 100 entries or more and page \<open>n\<close> comes back
  with fewer than 100 (none at all included), the loop ends after page \<open>n\<close>: the requests
  are exactly those for pages \<open>1, ..., n\<close>, in this order. The sizes 100, 100, 37 give
  three requests and the sizes 100, 0 give two.
\<close>

theorem pagination_stops:
  assumes "1 \<le> n"
    and "\<forall>p. 1 \<le> p \<and> p < n \<longrightarrow> (\<exists>xs. page_is net p xs \<and> perPage \<le> length xs)"
    and "page_is net n ys" and "length ys < perPage"
  shows "\<exists>tr cs. fetchRepoContributors net = Some (tr, cs)
    \<and> requests tr = map contributors_url [1..<Suc n]
    \<and> length (requests tr) = n \<and> perPage = 100"
proof -
  from pages_run [OF assms(2) assms(3) assms(4) assms(1), of "[]" "[]"]
  obtain all where all: "fetch_pages net 1 [] [] =
      Some (map (\<lambda>q. Request (contributors_url q)) [1..<Suc n], Inr all)"
    by auto
  show ?thesis
  proof (cases "those (map project_contributor all)")
    case None
    with all show ?thesis
      by (simp add: fetchRepoContributors_def requests_append requests_map_Request
          requests_Cons requests_Nil perPage_def)
  next
    case (Some cs)
    with all show ?thesis
      by (simp add: fetchRepoContributors_def requests_map_Request perPage_def)
  qed
qed

theorem pagination_stops_witness:
  "map_option (requests \<circ> fst) (fetchRepoContributors (mock_api [100, 100, 37])) =
     Some [''https://api.github.com/repos/ublue-os/aurora/contributors?per_page=100&page=1'',
           ''https://api.github.com/repos/ublue-os/aurora/contributors?per_page=100&page=2'',
           ''https://api.github.com/repos/ublue-os/aurora/contributors?per_page=100&page=3'']
   \<and> map_option (requests \<circ> fst) (fetchRepoContributors (mock_api [100, 0])) =
     Some [''https://api.github.com/repos/ublue-os/aurora/contributors?per_page=100&page=1'',
           ''https://api.github.com/repos/ublue-os/aurora/contributors?per_page=100&page=2'']"
proof -
  let ?stub = "JObj [(''login'', JStr ''x'')]"
  have a1: "(1::nat) \<le> 3" by simp
  have a2: "\<forall>p. 1 \<le> p \<and> p < 3 \<longrightarrow>
      (\<exists>xs. page_is (mock_api [100, 100, 37]) p xs \<and> perPage \<le> length xs)"
  proof (intro allI impI)
    fix p :: nat assume "1 \<le> p \<and> p < 3"
    then have "p = 1 \<or> p = 2" by arith
    then show "\<exists>xs. page_is (mock_api [100, 100, 37]) p xs \<and> perPage \<le> length xs"
      using page_is_mock [of "[100, 100, 37]" p]
      by (auto simp: perPage_def intro!: exI [of _ "replicate 100 ?stub"])
  qed
  have a3: "page_is (mock_api [100, 100, 37]) 3 (replicate 37 ?stub)"
    using page_is_mock [of "[100, 100, 37]" 3] by simp
  have a4: "length (replicate 37 ?stub) < perPage"
    by (simp add: perPage_def)
  have b1: "(1::nat) \<le> 2" by simp
  have b2: "\<forall>p. 1 \<le> p \<and> p < 2 \<longrightarrow>
      (\<exists>xs. page_is (mock_api [100, 0]) p xs \<and> perPage \<le> length xs)"
  proof (intro allI impI)
    fix p :: nat assume "1 \<le> p \<and> p < 2"
    then have "p = 1" by arith
    then show "\<exists>xs. page_is (mock_api [100, 0]) p xs \<and> perPage \<le> length xs"
      using page_is_mock [of "[100, 0]" p]
      by (auto simp: perPage_def intro!: exI [of _ "replicate 100 ?stub"])
  qed
  have b3: "page_is (mock_api [100, 0]) 2 []"
    using page_is_mock [of "[100, 0]" 2] by simp
  have b4: "length ([] :: jsval list) < perPage"
    by (simp add: perPage_def)
  have u3: "map contributors_url [1..<Suc 3] =
     [''https://api.github.com/repos/ublue-os/aurora/contributors?per_page=100&page=1'',
      ''https://api.github.com/repos/ublue-os/aurora/contributors?per_page=100&page=2'',
      ''https://api.github.com/repos/ublue-os/aurora/contributors?per_page=100&page=3'']"
    by code_simp
  have u2: "map contributors_url [1..<Suc 2] =
     [''https://api.github.com/repos/ublue-os/aurora/contributors?per_page=100&page=1'',
      ''https://api.github.com/repos/ublue-os/aurora/contributors?per_page=100&page=2'']"
    by code_simp
  show ?thesis
    using pagination_stops [OF a1 a2 a3 a4] pagination_stops [OF b1 b2 b3 b4] u3 u2
    by auto
qed

section \<open>Fallback for the repository contributors\<close>

text \<open>
  Claim C2. When the fetch of this run gives no contributor and the old snapshot has at
  least one, the merged list is the old list as it is. When the fetch gives one
  contributor or more, the merged list is the fetched list and nothing of the old one.
\<close>

theorem merge_repo_fallback:
  "(repo = [] \<and> repoContributors c = Some xs \<and> xs \<noteq> [] \<longrightarrow> merge_repo repo c = xs)
   \<and> (repo \<noteq> [] \<longrightarrow> merge_repo repo c = repo)"
  by (simp add: merge_repo_def use_cached_repo_def)

theorem merge_repo_fallback_witness:
  "merge_repo []
     \<lparr>generatedAt = JStr ''t'', githubUsers = None,
      repoContributors = Some [JNum 1, JNum 2, JNum 3, JNum 4, JNum 5]\<rparr>
     = [JNum 1, JNum 2, JNum 3, JNum 4, JNum 5]
   \<and> merge_repo [JNum 6, JNum 7]
     \<lparr>generatedAt = JStr ''t'', githubUsers = None,
      repoContributors = Some [JNum 1, JNum 2, JNum 3, JNum 4, JNum 5]\<rparr>
     = [JNum 6, JNum 7]"
  using merge_repo_fallback [of "[]" "\<lparr>generatedAt = JStr ''t'', githubUsers = None,
      repoContributors = Some [JNum 1, JNum 2, JNum 3, JNum 4, JNum 5]\<rparr>"
      "[JNum 1, JNum 2, JNum 3, JNum 4, JNum 5]"]
    merge_repo_fallback [of "[JNum 6, JNum 7]" "\<lparr>generatedAt = JStr ''t'', githubUsers = None,
      repoContributors = Some [JNum 1, JNum 2, JNum 3, JNum 4, JNum 5]\<rparr>" "[]"]
  by simp

section \<open>Validity of the cache, skipped runs and fatal errors\<close>

lemma regenerate_starts:
  assumes "regenerate e fs net = Some out"
  shows "hd (trace out) = LogCaching"
  using assms
  by (auto simp: regenerate_def fatal_def Let_def
      split: input_file.splits prod.splits option.splits)

text \<open>
  Claim C3. The check fails for no snapshot, for a snapshot whose \<open>generatedAt\<close> is more
  than 24 hours before now, and for a snapshot with no featured user and no repository
  contributor. It succeeds for a snapshot whose \<open>generatedAt\<close> is there, is less than 24
  hours before now, and that has a featured user or a repository contributor. With the
  force flag the run regenerates whatever the check would say.
\<close>

theorem cache_validity:
  "(\<not> isCacheValid e None)
   \<and> (date_ms e (generatedAt c) = Some t \<and> CACHE_MAX_AGE_MS < now_ms e - t
        \<longrightarrow> \<not> isCacheValid e (Some c))
   \<and> ((githubUsers c = None \<or> githubUsers c = Some [])
        \<and> (repoContributors c = None \<or> repoContributors c = Some [])
        \<longrightarrow> \<not> isCacheValid e (Some c))
   \<and> (truthy (generatedAt c) \<and> date_ms e (generatedAt c) = Some t
        \<and> now_ms e - t < CACHE_MAX_AGE_MS
        \<and> ((\<exists>kvs. githubUsers c = Some kvs \<and> kvs \<noteq> [])
            \<or> (\<exists>xs. repoContributors c = Some xs \<and> xs \<noteq> []))
        \<longrightarrow> isCacheValid e (Some c))
   \<and> (force e \<longrightarrow> main e fs net = regenerate e fs net
        \<and> (\<forall>out. main e fs net = Some out \<longrightarrow> hd (trace out) = LogCaching))
   \<and> CACHE_MAX_AGE_MS = 86400000"
  by (auto simp: isCacheValid_def main_def CACHE_MAX_AGE_MS_def regenerate_starts)

lemma batches_Nil: "fetch_batches net [] 0 g = ([], g)"
  by (subst fetch_batches.simps) simp

lemma repo_example:
  "fetchRepoContributors (mock_api [2]) =
     Some ([Request (contributors_url 1)],
       [JObj [(''login'', JStr ''x''), (''id'', JUndefined), (''avatar_url'', JUndefined),
              (''html_url'', JUndefined), (''contributions'', JUndefined)],
        JObj [(''login'', JStr ''x''), (''id'', JUndefined), (''avatar_url'', JUndefined),
              (''html_url'', JUndefined), (''contributions'', JUndefined)]])"
proof -
  have "page_is (mock_api [2]) 1 (replicate 2 (JObj [(''login'', JStr ''x'')]))"
    using page_is_mock [of "[2]" 1] by simp
  then have "fetch_pages (mock_api [2]) 1 [] [] =
      Some ([Request (contributors_url 1)], Inr (replicate 2 (JObj [(''login'', JStr ''x'')])))"
    using pages_step_last [of "mock_api [2]" 1 "replicate 2 (JObj [(''login'', JStr ''x'')])" "[]" "[]"]
    by (simp add: perPage_def)
  then show ?thesis
    by (simp add: fetchRepoContributors_def project_contributor_def numeral_2_eq_2)
qed

lemma url1: "contributors_url 1 =
  ''https://api.github.com/repos/ublue-os/aurora/contributors?per_page=100&page=1''"
  by code_simp

lemma forced_example:
  "map_option trace
       (regenerate (example_env\<lparr>force := True\<rparr>)
          \<lparr>contributors_json = Featured [], cache_json = Some example_cache\<rparr> example_net) =
       Some [LogCaching, LogFetchingFeatured 0, LogFetchingRepo,
             Request ''https://api.github.com/repos/ublue-os/aurora/contributors?per_page=100&page=1'',
             LogFound 2, WriteCache, LogWritten 1 2]"
  using url1
  by (simp add: regenerate_def Let_def batches_Nil repo_example example_env_def
      example_net_def example_cache_def merge_users_def empty_obj_def obj_truthy_def
      inherited_truthy_def object_prototype_names_def obj_assign_def example_profile_def
      use_cached_repo_def merge_repo_def)


theorem cache_validity_witness:
  "isCacheValid example_env (Some example_cache)
   \<and> \<not> isCacheValid (example_env\<lparr>now_ms := 1704153600000 + 90000000\<rparr>) (Some example_cache)
   \<and> \<not> isCacheValid example_env
         (Some (example_cache\<lparr>githubUsers := Some [], repoContributors := None\<rparr>))
   \<and> \<not> isCacheValid example_env None
   \<and> map_option trace
       (main (example_env\<lparr>force := True\<rparr>)
          \<lparr>contributors_json = Featured [], cache_json = Some example_cache\<rparr> example_net) =
       Some [LogCaching, LogFetchingFeatured 0, LogFetchingRepo,
             Request ''https://api.github.com/repos/ublue-os/aurora/contributors?per_page=100&page=1'',
             LogFound 2, WriteCache, LogWritten 1 2]"
proof -
  let ?fs = "\<lparr>contributors_json = Featured [], cache_json = Some example_cache\<rparr>"
  have 1: "isCacheValid example_env (Some example_cache)"
    using cache_validity [of example_env example_cache 1704153600000 ?fs example_net]
    by (simp add: example_env_def example_cache_def example_date_def CACHE_MAX_AGE_MS_def)
  have 2: "\<not> isCacheValid (example_env\<lparr>now_ms := 1704153600000 + 90000000\<rparr>) (Some example_cache)"
    using cache_validity [of "example_env\<lparr>now_ms := 1704153600000 + 90000000\<rparr>" example_cache
        1704153600000 ?fs example_net]
    by (simp add: example_env_def example_cache_def example_date_def CACHE_MAX_AGE_MS_def)
  have 3: "\<not> isCacheValid example_env
         (Some (example_cache\<lparr>githubUsers := Some [], repoContributors := None\<rparr>))"
    using cache_validity [of example_env
        "example_cache\<lparr>githubUsers := Some [], repoContributors := None\<rparr>" 0 ?fs example_net]
    by simp
  have 4: "\<not> isCacheValid example_env None"
    using cache_validity [of example_env example_cache 0 ?fs example_net] by simp
  have 5: "main (example_env\<lparr>force := True\<rparr>) ?fs example_net =
      regenerate (example_env\<lparr>force := True\<rparr>) ?fs example_net"
    using cache_validity [of "example_env\<lparr>force := True\<rparr>" example_cache 0 ?fs example_net]
    by simp
  show ?thesis
    using 1 2 3 4 5 forced_example by simp
qed

text \<open>
  Claim C9. With a valid cache and no force flag the run only prints that it skips: it
  makes no request, it leaves the files as they are, without any write, and it ends with
  exit code 0.
\<close>

theorem skip_run:
  assumes "\<not> force e" and "isCacheValid e (cache_json fs)"
  shows "\<exists>out. main e fs net = Some out \<and> exit_code out = 0 \<and> files_after out = fs
    \<and> trace out = [LogSkip] \<and> requests (trace out) = [] \<and> WriteCache \<notin> set (trace out)"
  using assms by (simp add: main_def requests_def)

theorem skip_run_witness:
  "main example_env \<lparr>contributors_json = Featured [], cache_json = Some example_cache\<rparr>
     example_net =
     Some \<lparr>exit_code = 0,
           files_after = \<lparr>contributors_json = Featured [], cache_json = Some example_cache\<rparr>,
           trace = [LogSkip]\<rparr>"
proof -
  let ?fs = "\<lparr>contributors_json = Featured [], cache_json = Some example_cache\<rparr>"
  have f: "\<not> force example_env"
    by (simp add: example_env_def)
  have v: "isCacheValid example_env (cache_json ?fs)"
    by (simp add: isCacheValid_def example_env_def example_cache_def example_date_def
        CACHE_MAX_AGE_MS_def)
  show ?thesis
    using skip_run [OF f v, of example_net] by auto
qed

text \<open>
  Claim C7. When the file of featured contributors cannot be read or parsed, the run
  leaves the files as they are, writes nothing and makes no request; unless the run was
  skipped before it read the file, it ends with exit code 1 after printing the error.
\<close>

theorem fatal_input:
  assumes "contributors_json fs \<in> {Unreadable, NotJson, NoList}"
  shows "\<exists>out. main e fs net = Some out \<and> files_after out = fs
    \<and> WriteCache \<notin> set (trace out) \<and> requests (trace out) = []
    \<and> (force e \<or> \<not> isCacheValid e (cache_json fs)
        \<longrightarrow> exit_code out = 1 \<and> (\<exists>err. last (trace out) = ErrorFailed err))"
  using assms
  by (auto simp: main_def regenerate_def fatal_def requests_def Let_def)

theorem fatal_input_witness:
  "main (example_env\<lparr>force := True\<rparr>)
     \<lparr>contributors_json = NotJson, cache_json = Some example_cache\<rparr> example_net =
     Some \<lparr>exit_code = 1,
           files_after = \<lparr>contributors_json = NotJson, cache_json = Some example_cache\<rparr>,
           trace = [LogCaching, ErrorFailed SyntaxError]\<rparr>"
proof -
  let ?fs = "\<lparr>contributors_json = NotJson, cache_json = Some example_cache\<rparr>"
  have h: "contributors_json ?fs \<in> {Unreadable, NotJson, NoList}"
    by simp
  show ?thesis
    using fatal_input [OF h, of "example_env\<lparr>force := True\<rparr>" example_net]
    by (auto simp: main_def regenerate_def fatal_def example_env_def)
qed

section \<open>The batches of featured users: stages and results\<close>

lemma batch_stages_append: "batch_stages (xs @ ys) = batch_stages xs + batch_stages ys"
  by (simp add: batch_stages_def)

lemma batch_stages_attempt: "batch_stages (fst (attempt r)) = 0"
  by (cases r) (auto simp: batch_stages_def split: reset_header.splits)

lemma batch_stages_retry: "batch_stages (fst (fetchWithRetry_from url n net i)) = 0"
proof (induction url n net i rule: fetchWithRetry_from.induct)
  case (1 url retries net i)
  show ?case
  proof (cases "attempt (net i)")
    case (Pair evs r)
    then have evs: "batch_stages evs = 0"
      using batch_stages_attempt [of "net i"] by simp
    show ?thesis
      using 1 Pair evs
      by (subst fetchWithRetry_from.simps)
         (auto simp: batch_stages_def split: sum.splits option.splits prod.splits)
  qed
qed

lemma batch_stages_user: "batch_stages (fst (fetchGitHubUser net u)) = 0"
  using batch_stages_retry [of "users_url u" 3 net 0]
  by (auto simp: fetchGitHubUser_def fetchWithRetry_def batch_stages_def
      split: prod.splits sum.splits option.splits)

lemma batch_stages_concat:
  "(\<forall>x \<in> set xs. batch_stages x = 0) \<Longrightarrow> batch_stages (concat xs) = 0"
  by (induction xs) (simp_all add: batch_stages_append, simp add: batch_stages_def)


lemma ceil_step:
  assumes "i < (n::nat)"
  shows "Suc ((n - (i + 10) + 10 - 1) div 10) = (n - i + 10 - 1) div 10"
proof (cases "i + 10 \<le> n")
  case True
  then have "n - i + 10 - 1 = (n - (i + 10) + 10 - 1) + 10" by simp
  then show ?thesis by (simp only: div_add_self2)
next
  case False
  with assms have a: "n - (i + 10) = 0" and b: "10 \<le> n - i + 10 - 1" and c: "n - i + 10 - 1 < 20"
    by simp_all
  have "(n - i + 10 - 1) div 10 = 1"
    using b c by (intro div_nat_eqI) simp_all
  with a show ?thesis by simp
qed

lemma batches_unfold:
  assumes "i < length cs"
  shows "fetch_batches net cs i g =
    (let batch = take batchSize (drop i cs);
         fetched = map (\<lambda>(j, c). fetchGitHubUser (net (i + j)) (github c))
                        (zip [0..<length batch] batch);
         g' = attach batch (map snd fetched) g
     in (concat (map fst fetched)
          @ [LogProcessed (min (i + batchSize) (length cs)) (length cs)]
          @ (if i + batchSize < length cs then [Sleep 500] else [])
          @ fst (fetch_batches net cs (i + batchSize) g'),
         snd (fetch_batches net cs (i + batchSize) g')))"
  using assms
  by (subst fetch_batches.simps) (simp add: Let_def split: prod.splits)


lemma stages_from:
  "batch_stages (fst (fetch_batches net cs i g)) = (length cs - i + batchSize - 1) div batchSize"
proof (induction net cs i g rule: fetch_batches.induct)
  case (1 net cs i g)
  show ?case
  proof (cases "i < length cs")
    case False
    then show ?thesis
      by (subst fetch_batches.simps) (simp add: batch_stages_def batchSize_def)
  next
    case True
    define batch where "batch = take batchSize (drop i cs)"
    define fetched where "fetched = map (\<lambda>(j, c). fetchGitHubUser (net (i + j)) (github c))
                        (zip [0..<length batch] batch)"
    define g' where "g' = attach batch (map snd fetched) g"
    have ih: "batch_stages (fst (fetch_batches net cs (i + batchSize) g')) =
        (length cs - (i + batchSize) + batchSize - 1) div batchSize"
      using 1 [OF True batch_def fetched_def g'_def] by simp
    have z: "batch_stages (concat (map fst fetched)) = 0"
      by (rule batch_stages_concat) (auto simp: fetched_def batch_stages_user)
    have unfold: "fst (fetch_batches net cs i g) =
        concat (map fst fetched)
          @ [LogProcessed (min (i + batchSize) (length cs)) (length cs)]
          @ (if i + batchSize < length cs then [Sleep 500] else [])
          @ fst (fetch_batches net cs (i + batchSize) g')"
      by (simp add: batches_unfold [OF True] Let_def batch_def fetched_def g'_def)
    have one: "batch_stages ([LogProcessed (min (i + batchSize) (length cs)) (length cs)]
          @ (if i + batchSize < length cs then [Sleep 500] else [])) = 1"
      by (simp add: batch_stages_def)
    show ?thesis
      using z ih one ceil_step [OF True]
      by (simp only: unfold batch_stages_append append_assoc [symmetric]) (simp add: batchSize_def)
  qed
qed


lemma attach_Nil: "attach [] rs g = g"
  by (simp add: attach_def)

lemma attach_append:
  assumes "length xs = length rs"
  shows "attach (xs @ ys) (rs @ ss) g = attach ys ss (attach xs rs g)"
  using assms by (simp add: attach_def)

lemma length_fetch_results: "length (fetch_results net cs) = length cs"
  by (simp add: fetch_results_def)

lemma nth_fetch_results:
  assumes "j < length cs"
  shows "fetch_results net cs ! j = snd (fetchGitHubUser (net j) (github (cs ! j)))"
  using assms by (simp add: fetch_results_def)

lemma batch_results:
  "map snd (map (\<lambda>(j, c). fetchGitHubUser (net (i + j)) (github c))
              (zip [0..<length (take b (drop i cs))] (take b (drop i cs)))) =
   take b (drop i (fetch_results net cs))"
proof (rule nth_equalityI)
  show "length (map snd (map (\<lambda>(j, c). fetchGitHubUser (net (i + j)) (github c))
              (zip [0..<length (take b (drop i cs))] (take b (drop i cs))))) =
        length (take b (drop i (fetch_results net cs)))"
    by (simp add: length_fetch_results)
next
  fix k
  assume "k < length (map snd (map (\<lambda>(j, c). fetchGitHubUser (net (i + j)) (github c))
              (zip [0..<length (take b (drop i cs))] (take b (drop i cs)))))"
  then have k: "k < b" "i + k < length cs"
    by auto
  then show "map snd (map (\<lambda>(j, c). fetchGitHubUser (net (i + j)) (github c))
              (zip [0..<length (take b (drop i cs))] (take b (drop i cs)))) ! k =
        take b (drop i (fetch_results net cs)) ! k"
    by (simp add: nth_fetch_results length_fetch_results)
qed

lemma batches_refine_from:
  "snd (fetch_batches net cs i g) = attach (drop i cs) (drop i (fetch_results net cs)) g"
proof (induction net cs i g rule: fetch_batches.induct)
  case (1 net cs i g)
  show ?case
  proof (cases "i < length cs")
    case False
    then show ?thesis
      by (subst fetch_batches.simps) (simp add: attach_Nil)
  next
    case True
    define batch where "batch = take batchSize (drop i cs)"
    define fetched where "fetched = map (\<lambda>(j, c). fetchGitHubUser (net (i + j)) (github c))
                        (zip [0..<length batch] batch)"
    define g' where "g' = attach batch (map snd fetched) g"
    have ih: "snd (fetch_batches net cs (i + batchSize) g') =
        attach (drop (i + batchSize) cs) (drop (i + batchSize) (fetch_results net cs)) g'"
      using 1 [OF True batch_def fetched_def g'_def] by simp
    have res: "map snd fetched = take batchSize (drop i (fetch_results net cs))"
      unfolding fetched_def batch_def by (rule batch_results)
    have unfold: "snd (fetch_batches net cs i g) = snd (fetch_batches net cs (i + batchSize) g')"
      by (simp add: batches_unfold [OF True] Let_def batch_def fetched_def g'_def)
    have len: "length batch = length (take batchSize (drop i (fetch_results net cs)))"
      by (simp add: batch_def length_fetch_results)
    have "attach (drop i cs) (drop i (fetch_results net cs)) g =
        attach (batch @ drop (i + batchSize) cs)
          (take batchSize (drop i (fetch_results net cs))
             @ drop (i + batchSize) (fetch_results net cs)) g"
    proof -
      have "drop i xs = take batchSize (drop i xs) @ drop (i + batchSize) xs" for xs :: "'z list"
        using append_take_drop_id [of batchSize "drop i xs"]
        by (simp add: add.commute)
      from this [of cs] this [of "fetch_results net cs"] show ?thesis
        by (simp add: batch_def)
    qed
    also have "\<dots> = attach (drop (i + batchSize) cs) (drop (i + batchSize) (fetch_results net cs)) g'"
      using len by (simp only: attach_append g'_def res)
    finally show ?thesis
      by (simp add: unfold ih)
  qed
qed


section \<open>Storing results in the mapping\<close>

lemma attach_Cons:
  "attach (c # cs) (r # rs) g =
     attach cs rs (if truthy r then obj_assign g (github c) r else g)"
  by (simp add: attach_def)

lemma attach_Nil2: "attach cs [] g = g"
  by (simp add: attach_def)

lemma own_obj_assign:
  "map_of (own_props (obj_assign g k v)) k' =
     (if k \<noteq> ''__proto__'' \<and> k' = k then Some v else map_of (own_props g) k')"
  by (auto simp: obj_assign_def update_conv' split: jsval.splits)

lemma keys_obj_assign:
  "fst ` set (own_props (obj_assign g k v)) =
     (if k = ''__proto__'' then {} else {k}) \<union> fst ` set (own_props g)"
  by (auto simp: obj_assign_def dom_update split: jsval.splits)

lemma set_update_subset: "set (AList.update k v al) \<subseteq> insert (k, v) (set al)"
  by (induction al) auto

lemma values_obj_assign:
  assumes "\<forall>w \<in> snd ` set (own_props g). P w" and "P v"
  shows "\<forall>w \<in> snd ` set (own_props (obj_assign g k v)). P w"
  using assms set_update_subset [of k v "own_props g"]
  by (auto simp: obj_assign_def split: jsval.splits)

lemma prototype_obj_assign:
  "k \<noteq> ''__proto__'' \<Longrightarrow> prototype (obj_assign g k v) = prototype g"
  by (simp add: obj_assign_def)

lemma attach_skip:
  assumes "\<forall>(c, r) \<in> set (zip cs rs). github c = k \<longrightarrow> \<not> truthy r"
  shows "map_of (own_props (attach cs rs g)) k = map_of (own_props g) k"
  using assms
proof (induction cs arbitrary: rs g)
  case Nil
  then show ?case by (simp add: attach_Nil)
next
  case (Cons c cs)
  show ?case
  proof (cases rs)
    case Nil
    then show ?thesis by (simp add: attach_Nil2)
  next
    case (Cons r rs')
    with Cons.prems Cons.IH [of rs'] show ?thesis
      by (auto simp: attach_Cons own_obj_assign)
  qed
qed

lemma attach_keys:
  "fst ` set (own_props (attach cs rs g)) =
     fst ` set (own_props g)
     \<union> {github c | c r. (c, r) \<in> set (zip cs rs) \<and> truthy r \<and> github c \<noteq> ''__proto__''}"
proof (induction cs arbitrary: rs g)
  case Nil
  then show ?case by (simp add: attach_Nil)
next
  case (Cons c cs)
  show ?case
  proof (cases rs)
    case Nil
    then show ?thesis by (simp add: attach_Nil2)
  next
    case (Cons r rs')
    show ?thesis
      unfolding Cons attach_Cons Cons.IH
      by (auto simp: keys_obj_assign)
  qed
qed

lemma attach_values:
  assumes "\<forall>w \<in> snd ` set (own_props g). P w" and "\<forall>r \<in> set rs. truthy r \<longrightarrow> P r"
  shows "\<forall>w \<in> snd ` set (own_props (attach cs rs g)). P w"
  using assms
proof (induction cs arbitrary: rs g)
  case Nil
  then show ?case by (simp add: attach_Nil)
next
  case (Cons c cs)
  note own = Cons.prems(1) and res = Cons.prems(2)
  show ?case
  proof (cases rs)
    case Nil
    with own show ?thesis by (simp add: attach_Nil2)
  next
    case rs: (Cons r rs')
    have tl: "\<forall>r \<in> set rs'. truthy r \<longrightarrow> P r"
      using res rs by simp
    show ?thesis
    proof (cases "truthy r")
      case True
      then have "P r" using res rs by simp
      with own have "\<forall>w \<in> snd ` set (own_props (obj_assign g (github c) r)). P w"
        by (rule values_obj_assign)
      from Cons.IH [OF this tl] True show ?thesis
        by (simp add: rs attach_Cons)
    next
      case False
      with Cons.IH [OF own tl] show ?thesis
        by (simp add: rs attach_Cons)
    qed
  qed
qed

lemma attach_prototype:
  assumes "''__proto__'' \<notin> github ` set cs"
  shows "prototype (attach cs rs g) = prototype g"
  using assms
proof (induction cs arbitrary: rs g)
  case Nil
  then show ?case by (simp add: attach_Nil)
next
  case (Cons c cs)
  show ?case
  proof (cases rs)
    case Nil
    then show ?thesis by (simp add: attach_Nil2)
  next
    case (Cons r rs')
    with Cons.prems Cons.IH [of rs'] show ?thesis
      by (auto simp: attach_Cons prototype_obj_assign)
  qed
qed


section \<open>The fallback merge of the mapping\<close>

lemma merge_users_Nil: "merge_users [] g = g"
  by (simp add: merge_users_def)

lemma merge_users_Cons:
  "merge_users ((k, d) # old) g =
     merge_users old (if \<not> obj_truthy g k \<and> truthy d then obj_assign g k d else g)"
  by (simp add: merge_users_def)

lemma obj_truthy_proto: "obj_truthy g ''__proto__''"
  by (simp add: obj_truthy_def)

lemma not_obj_truthy_proto: "\<not> obj_truthy g k \<Longrightarrow> k \<noteq> ''__proto__''"
  by (auto simp: obj_truthy_def)

lemma obj_truthy_assign:
  assumes "\<not> obj_truthy g k"
  shows "obj_truthy (obj_assign g k d) k' = (if k' = k then truthy d else obj_truthy g k')"
  using assms
  by (auto simp: obj_truthy_def obj_assign_def inherited_truthy_def update_conv'
      split: option.splits)

lemma merge_users_prototype: "prototype (merge_users old g) = prototype g"
proof (induction old arbitrary: g)
  case Nil
  then show ?case by (simp add: merge_users_Nil)
next
  case (Cons p old)
  obtain k d where p: "p = (k, d)" by (cases p)
  show ?case
    unfolding p merge_users_Cons Cons.IH
    by (auto simp: prototype_obj_assign dest: not_obj_truthy_proto)
qed

text \<open>A truthy own property is never replaced.\<close>

lemma merge_users_keeps:
  assumes "map_of (own_props g) k = Some v" and "truthy v"
  shows "map_of (own_props (merge_users old g)) k = Some v"
  using assms
proof (induction old arbitrary: g)
  case Nil
  then show ?case by (simp add: merge_users_Nil)
next
  case (Cons p old)
  obtain k' d where p: "p = (k', d)" by (cases p)
  have "map_of (own_props (if \<not> obj_truthy g k' \<and> truthy d then obj_assign g k' d else g)) k = Some v"
    using Cons.prems by (auto simp: own_obj_assign obj_truthy_def)
  from Cons.IH [OF this Cons.prems(2)] show ?case
    by (simp add: p merge_users_Cons)
qed

lemma merge_users_carries:
  assumes "map_of old k = Some v" and "truthy v" and "\<not> obj_truthy g k"
  shows "map_of (own_props (merge_users old g)) k = Some v"
  using assms
proof (induction old arbitrary: g)
  case Nil
  then show ?case by simp
next
  case (Cons p old)
  obtain k' d where p: "p = (k', d)" by (cases p)
  show ?case
  proof (cases "k' = k")
    case True
    with Cons.prems p have d: "d = v" by simp
    have "map_of (own_props (obj_assign g k v)) k = Some v"
      using Cons.prems(3) by (simp add: own_obj_assign not_obj_truthy_proto)
    from merge_users_keeps [OF this Cons.prems(2)] show ?thesis
      using Cons.prems by (simp add: p True d merge_users_Cons)
  next
    case False
    with Cons.prems p have old: "map_of old k = Some v" by simp
    have "\<not> obj_truthy (if \<not> obj_truthy g k' \<and> truthy d then obj_assign g k' d else g) k"
      using Cons.prems(3) False by (simp add: obj_truthy_assign)
    from Cons.IH [OF old Cons.prems(2) this] show ?thesis
      by (simp add: p merge_users_Cons)
  qed
qed


lemma merge_users_keys:
  "fst ` set (own_props (merge_users old g)) =
     fst ` set (own_props g) \<union> {k. \<exists>v. (k, v) \<in> set old \<and> truthy v \<and> \<not> obj_truthy g k}"
proof (induction old arbitrary: g)
  case Nil
  then show ?case by (simp add: merge_users_Nil)
next
  case (Cons p old)
  obtain k d where p: "p = (k, d)" by (cases p)
  show ?case
  proof (cases "\<not> obj_truthy g k \<and> truthy d")
    case True
    then have k: "k \<noteq> ''__proto__''" by (auto dest: not_obj_truthy_proto)
    have t: "obj_truthy (obj_assign g k d) k' = (k' = k \<or> obj_truthy g k')" for k'
      using True by (simp add: obj_truthy_assign)
    show ?thesis
      unfolding p merge_users_Cons Cons.IH
      using True k by (auto simp: keys_obj_assign t)
  next
    case False
    show ?thesis
      unfolding p merge_users_Cons Cons.IH
      using False by auto
  qed
qed

lemma merge_users_values:
  assumes "\<forall>w \<in> snd ` set (own_props g). P w" and "\<forall>d \<in> snd ` set old. truthy d \<longrightarrow> P d"
  shows "\<forall>w \<in> snd ` set (own_props (merge_users old g)). P w"
  using assms
proof (induction old arbitrary: g)
  case Nil
  then show ?case by (simp add: merge_users_Nil)
next
  case (Cons p old)
  note own = Cons.prems(1) and res = Cons.prems(2)
  obtain k d where p: "p = (k, d)" by (cases p)
  have tl: "\<forall>d \<in> snd ` set old. truthy d \<longrightarrow> P d"
    using res by simp
  show ?case
  proof (cases "\<not> obj_truthy g k \<and> truthy d")
    case True
    then have "P d" using res p by simp
    with own have "\<forall>w \<in> snd ` set (own_props (obj_assign g k d)). P w"
      by (rule values_obj_assign)
    from Cons.IH [OF this tl] True show ?thesis
      by (simp add: p merge_users_Cons)
  next
    case False
    with Cons.IH [OF own tl] show ?thesis
      by (auto simp: p merge_users_Cons)
  qed
qed


section \<open>Batched fetch of the featured users\<close>

lemma attach_none:
  assumes "\<forall>j. j < length cs \<and> j < length rs \<and> github (cs ! j) = k \<longrightarrow> \<not> truthy (rs ! j)"
  shows "map_of (own_props (attach cs rs g)) k = map_of (own_props g) k"
proof (rule attach_skip)
  show "\<forall>(c, r) \<in> set (zip cs rs). github c = k \<longrightarrow> \<not> truthy r"
    using assms by (auto simp: in_set_zip)
qed

lemma attach_last:
  assumes "j < length cs" and "length rs = length cs" and "github (cs ! j) = k"
    and "k \<noteq> ''__proto__''" and "truthy (rs ! j)"
    and "\<forall>i. j < i \<and> i < length cs \<longrightarrow> github (cs ! i) \<noteq> k"
  shows "map_of (own_props (attach cs rs g)) k = Some (rs ! j)"
proof -
  have cs: "cs = take j cs @ cs ! j # drop (Suc j) cs"
    using assms(1) by (rule id_take_nth_drop)
  have rs: "rs = take j rs @ rs ! j # drop (Suc j) rs"
    using assms(1,2) by (simp add: id_take_nth_drop)
  have len: "length (take j cs) = length (take j rs)"
    using assms(2) by simp
  define g1 where "g1 = attach (take j cs) (take j rs) g"
  have "attach cs rs g =
      attach (take j cs @ cs ! j # drop (Suc j) cs) (take j rs @ rs ! j # drop (Suc j) rs) g"
    using cs rs by simp
  also have "\<dots> = attach (drop (Suc j) cs) (drop (Suc j) rs) (obj_assign g1 k (rs ! j))"
    using assms(3,5) by (simp only: attach_append [OF len] attach_Cons g1_def) simp
  finally have split: "attach cs rs g =
      attach (drop (Suc j) cs) (drop (Suc j) rs) (obj_assign g1 k (rs ! j))" .
  have "\<forall>i. i < length (drop (Suc j) cs) \<and> i < length (drop (Suc j) rs)
        \<and> github (drop (Suc j) cs ! i) = k \<longrightarrow> \<not> truthy (drop (Suc j) rs ! i)"
  proof (intro allI impI)
    fix i
    assume a: "i < length (drop (Suc j) cs) \<and> i < length (drop (Suc j) rs)
        \<and> github (drop (Suc j) cs ! i) = k"
    then have b: "j < Suc j + i \<and> Suc j + i < length cs" by auto
    with assms(6) have "github (cs ! (Suc j + i)) \<noteq> k" by blast
    moreover have "drop (Suc j) cs ! i = cs ! (Suc j + i)"
      using b by (intro nth_drop) simp
    ultimately show "\<not> truthy (drop (Suc j) rs ! i)"
      using a by simp
  qed
  from attach_none [OF this] show ?thesis
    using assms(4) by (simp add: split own_obj_assign)
qed

lemma fetch_user_rejected:
  "snd (fetchGitHubUser (\<lambda>i. Rejects) u) = JNull"
proof -
  have "\<forall>i<3. thrown ((\<lambda>i. Rejects) i) \<noteq> None"
    by (simp add: thrown_def)
  from retry_all_thrown [of 0 3 "\<lambda>i. Rejects" "users_url u"]
  have "snd (fetchWithRetry (users_url u) (\<lambda>i. Rejects)) = Inl FetchFailed"
    by (simp add: fetchWithRetry_def thrown_def)
  then show ?thesis
    by (auto simp: fetchGitHubUser_def split: prod.splits sum.splits)
qed

lemma fetch_user_ok:
  assumes "net 0 = Responds 200 h (Some d)" and "project_user d = Some p"
  shows "fetchGitHubUser net u = ([Request (users_url u)], p)"
  using assms
  unfolding fetchGitHubUser_def fetchWithRetry_def
  by (subst fetchWithRetry_from.simps) (simp add: response_ok_def)

lemma project_example: "project_user (example_profile l) = Some (example_profile l)"
  by (simp add: project_user_def example_profile_def)

lemma example_results:
  "fetch_results example_users_net example_featured =
     [example_profile ''x'', JNull, example_profile ''x'', example_profile ''x'',
      example_profile ''x'', example_profile ''x'', example_profile ''x'',
      example_profile ''x'', example_profile ''x'', example_profile ''x'',
      example_profile ''x'', example_profile ''x'']"
proof -
  have ok: "snd (fetchGitHubUser (example_users_net j) u) = example_profile ''x''" if "j \<noteq> 1" for j u
    using that fetch_user_ok [of "example_users_net j" NoReset "example_profile ''x''" "example_profile ''x''" u]
    by (simp add: example_users_net_def project_example)
  have bad: "snd (fetchGitHubUser (example_users_net 1) u) = JNull" for u
    using fetch_user_rejected [of u] by (simp add: example_users_net_def [abs_def])
  have upt: "[0..<12] = [0, 1, 2, 3, 4, 5, 6, 7, 8, 9, 10, 11]"
    by (simp add: upt_conv_Cons)
  show ?thesis
    using bad by (simp add: fetch_results_def example_featured_def upt ok)
qed

text \<open>
  Claim C6. With \<open>N\<close> featured contributors the run goes through \<open>ceil(N / 10)\<close> batches,
  one after the other. The mapping it builds is the one obtained by storing, in the order
  of the list, what each entry gets from its own fetch: a fetch that fails gives \<open>null\<close>
  for its own entry only and stores nothing, and the other entries of the batch are
  stored as they were fetched. So a login all of whose fetches failed has no entry, and
  a login whose last entry in the list was fetched has that result.
\<close>

theorem batched_fetch:
  "batch_stages (fst (fetch_batches net cs 0 g)) = (length cs + batchSize - 1) div batchSize
   \<and> batchSize = 10
   \<and> snd (fetch_batches net cs 0 g) = attach cs (fetch_results net cs) g
   \<and> length (fetch_results net cs) = length cs
   \<and> (j < length cs \<longrightarrow>
        fetch_results net cs ! j = snd (fetchGitHubUser (net j) (github (cs ! j))))
   \<and> ((\<forall>i. i < length cs \<and> github (cs ! i) = k \<longrightarrow> \<not> truthy (fetch_results net cs ! i))
        \<longrightarrow> map_of (own_props (snd (fetch_batches net cs 0 empty_obj))) k = None)
   \<and> (j < length cs \<and> github (cs ! j) = k \<and> k \<noteq> ''__proto__''
        \<and> truthy (fetch_results net cs ! j)
        \<and> (\<forall>i. j < i \<and> i < length cs \<longrightarrow> github (cs ! i) \<noteq> k)
        \<longrightarrow> map_of (own_props (snd (fetch_batches net cs 0 empty_obj))) k
              = Some (fetch_results net cs ! j))"
proof -
  have refine: "snd (fetch_batches net cs 0 g) = attach cs (fetch_results net cs) g" for g
    using batches_refine_from [of net cs 0 g] by simp
  have c1: "batch_stages (fst (fetch_batches net cs 0 g)) =
      (length cs + batchSize - 1) div batchSize"
    using stages_from [of net cs 0 g] by simp
  have c2: "batchSize = 10"
    by (simp add: batchSize_def)
  have c5: "j < length cs \<longrightarrow>
        fetch_results net cs ! j = snd (fetchGitHubUser (net j) (github (cs ! j)))"
    by (simp add: nth_fetch_results)
  have c6: "(\<forall>i. i < length cs \<and> github (cs ! i) = k \<longrightarrow> \<not> truthy (fetch_results net cs ! i))
        \<longrightarrow> map_of (own_props (snd (fetch_batches net cs 0 empty_obj))) k = None"
  proof
    assume "\<forall>i. i < length cs \<and> github (cs ! i) = k \<longrightarrow> \<not> truthy (fetch_results net cs ! i)"
    then have "\<forall>i. i < length cs \<and> i < length (fetch_results net cs) \<and> github (cs ! i) = k
        \<longrightarrow> \<not> truthy (fetch_results net cs ! i)"
      by simp
    from attach_none [OF this, of empty_obj]
    show "map_of (own_props (snd (fetch_batches net cs 0 empty_obj))) k = None"
      by (simp add: refine empty_obj_def)
  qed
  have c7: "j < length cs \<and> github (cs ! j) = k \<and> k \<noteq> ''__proto__''
        \<and> truthy (fetch_results net cs ! j)
        \<and> (\<forall>i. j < i \<and> i < length cs \<longrightarrow> github (cs ! i) \<noteq> k)
        \<longrightarrow> map_of (own_props (snd (fetch_batches net cs 0 empty_obj))) k
              = Some (fetch_results net cs ! j)"
  proof
    assume a: "j < length cs \<and> github (cs ! j) = k \<and> k \<noteq> ''__proto__''
        \<and> truthy (fetch_results net cs ! j)
        \<and> (\<forall>i. j < i \<and> i < length cs \<longrightarrow> github (cs ! i) \<noteq> k)"
    then have "map_of (own_props (attach cs (fetch_results net cs) empty_obj)) k =
        Some (fetch_results net cs ! j)"
      by (intro attach_last) (simp_all add: length_fetch_results)
    then show "map_of (own_props (snd (fetch_batches net cs 0 empty_obj))) k
              = Some (fetch_results net cs ! j)"
      by (simp add: refine)
  qed
  show ?thesis
    by (intro conjI) (rule c1 c2 refine length_fetch_results c5 c6 c7)+
qed


theorem batched_fetch_witness:
  "batch_stages (fst (fetch_batches example_users_net example_featured 0 empty_obj)) = 2
   \<and> length example_featured = 12
   \<and> map_of (own_props (snd (fetch_batches example_users_net example_featured 0 empty_obj)))
       ''u1'' = None
   \<and> map_of (own_props (snd (fetch_batches example_users_net example_featured 0 empty_obj)))
       ''u2'' = Some (example_profile ''x'')"
proof -
  let ?cs = example_featured and ?rs = "fetch_results example_users_net example_featured"
  have len: "length ?cs = 12"
    by (simp add: example_featured_def)
  have dist: "distinct (map github ?cs)"
    by (simp add: example_featured_def)
  have u1: "\<forall>i. i < length ?cs \<and> github (?cs ! i) = ''u1'' \<longrightarrow> \<not> truthy (?rs ! i)"
  proof (intro allI impI)
    fix i assume a: "i < length ?cs \<and> github (?cs ! i) = ''u1''"
    have "github (?cs ! 1) = ''u1''"
      by (simp add: example_featured_def)
    then have eq: "map github ?cs ! i = map github ?cs ! 1"
      using a len by simp
    from dist have "(map github ?cs ! i = map github ?cs ! 1) = (i = 1)"
      by (rule nth_eq_iff_index_eq) (use a len in simp_all)
    with eq have "i = 1"
      by (simp only:)
    then show "\<not> truthy (?rs ! i)"
      by (simp add: example_results)
  qed
  have u2: "2 < length ?cs \<and> github (?cs ! 2) = ''u2'' \<and> ''u2'' \<noteq> ''__proto__''
      \<and> truthy (?rs ! 2) \<and> (\<forall>i. 2 < i \<and> i < length ?cs \<longrightarrow> github (?cs ! i) \<noteq> ''u2'')"
  proof (intro conjI allI impI)
    show "2 < length ?cs" using len by simp
    show "github (?cs ! 2) = ''u2''" by (simp add: example_featured_def)
    show "''u2'' \<noteq> ''__proto__''" by simp
    show "truthy (?rs ! 2)" by (simp add: example_results example_profile_def)
    fix i assume a: "2 < i \<and> i < length ?cs"
    show "github (?cs ! i) \<noteq> ''u2''"
    proof
      assume "github (?cs ! i) = ''u2''"
      moreover have "github (?cs ! 2) = ''u2''"
        by (simp add: example_featured_def)
      ultimately have eq: "map github ?cs ! i = map github ?cs ! 2"
        using a len by simp
      from dist have "(map github ?cs ! i = map github ?cs ! 2) = (i = 2)"
        by (rule nth_eq_iff_index_eq) (use a len in simp_all)
      with eq have "i = 2"
        by (simp only:)
      with a show False by simp
    qed
  qed
  note t1 = batched_fetch [of example_users_net ?cs empty_obj 2 "''u1''"]
  note t2 = batched_fetch [of example_users_net ?cs empty_obj 2 "''u2''"]
  have "batch_stages (fst (fetch_batches example_users_net ?cs 0 empty_obj)) =
      (length ?cs + batchSize - 1) div batchSize"
    using t1 by (rule conjunct1)
  then have s: "batch_stages (fst (fetch_batches example_users_net ?cs 0 empty_obj)) = 2"
    by (simp add: len batchSize_def)
  have n: "map_of (own_props (snd (fetch_batches example_users_net ?cs 0 empty_obj))) ''u1'' = None"
    using t1 [THEN conjunct2, THEN conjunct2, THEN conjunct2, THEN conjunct2, THEN conjunct2,
        THEN conjunct1] u1
    by (rule mp)
  have "map_of (own_props (snd (fetch_batches example_users_net ?cs 0 empty_obj))) ''u2'' =
      Some (?rs ! 2)"
    using t2 [THEN conjunct2, THEN conjunct2, THEN conjunct2, THEN conjunct2, THEN conjunct2,
        THEN conjunct2] u2
    by (rule mp)
  then have y: "map_of (own_props (snd (fetch_batches example_users_net ?cs 0 empty_obj))) ''u2'' =
      Some (example_profile ''x'')"
    by (simp add: example_results)
  show ?thesis
    using s len n y by (intro conjI)
qed


section \<open>Fallback for the featured users\<close>

lemma project_user_obj: "project_user d = Some p \<Longrightarrow> \<exists>fs. p = JObj fs"
  by (auto simp: project_user_def split: Option.bind_splits)

lemma fetch_user_result:
  "snd (fetchGitHubUser net u) = JNull \<or> (\<exists>fs. snd (fetchGitHubUser net u) = JObj fs)"
  by (auto simp: fetchGitHubUser_def split: prod.splits sum.splits option.splits
      dest: project_user_obj)

lemma fetch_results_objects:
  assumes "r \<in> set (fetch_results net cs)" and "truthy r"
  shows "\<exists>fs. r = JObj fs"
proof -
  from assms(1) obtain j where "j < length cs" and "fetch_results net cs ! j = r"
    by (auto simp: in_set_conv_nth length_fetch_results)
  then have "r = snd (fetchGitHubUser (net j) (github (cs ! j)))"
    by (simp add: nth_fetch_results)
  with fetch_user_result [of "net j" "github (cs ! j)"] assms(2) show ?thesis
    by auto
qed

lemma fetched_values:
  "\<forall>w \<in> snd ` set (own_props (snd (fetch_batches net cs 0 empty_obj))). \<exists>fs. w = JObj fs"
proof -
  have "\<forall>w \<in> snd ` set (own_props (attach cs (fetch_results net cs) empty_obj)). \<exists>fs. w = JObj fs"
    by (rule attach_values) (auto simp: empty_obj_def dest: fetch_results_objects)
  then show ?thesis
    using batches_refine_from [of net cs 0 empty_obj] by simp
qed

lemma obj_truthy_absent:
  assumes "map_of (own_props g) k = None" and "prototype g = None"
    and "k \<notin> set object_prototype_names"
  shows "\<not> obj_truthy g k"
  using assms by (auto simp: obj_truthy_def inherited_truthy_def object_prototype_names_def)

lemma fetched_one:
  assumes "u \<noteq> ''__proto__''"
  shows "snd (fetch_batches (\<lambda>j i. Responds 200 NoReset (Some (example_profile l)))
            [\<lparr>github = u\<rparr>] 0 empty_obj) =
         \<lparr>own_props = [(u, example_profile l)], prototype = None\<rparr>"
proof -
  let ?net = "\<lambda>j i. Responds 200 NoReset (Some (example_profile l))"
  have "fetchGitHubUser (?net 0) u = ([Request (users_url u)], example_profile l)"
    by (rule fetch_user_ok [of _ NoReset "example_profile l"]) (simp_all add: project_example)
  then have "fetch_results ?net [\<lparr>github = u\<rparr>] = [example_profile l]"
    by (simp add: fetch_results_def)
  then show ?thesis
    using assms batches_refine_from [of ?net "[\<lparr>github = u\<rparr>]" 0 empty_obj]
    by (simp add: attach_def obj_assign_def empty_obj_def example_profile_def)
qed

text \<open>
  Claim C1, as the claim states it, fails: an old entry whose value is \<open>null\<close> is in the
  old snapshot and not in the fetched mapping, and it is not carried forward.
\<close>

theorem users_merge_counterexample:
  "map_of [(''B'', JNull)] ''B'' = Some JNull
   \<and> map_of (own_props empty_obj) ''B'' = None
   \<and> map_of (own_props (merge_users [(''B'', JNull)] empty_obj)) ''B'' \<noteq> Some JNull"
  by (simp add: merge_users_def empty_obj_def)

text \<open>
  Claim C1, amended. An old entry is carried forward unchanged when its value is truthy
  and \<^verbatim>\<open>githubUsers[login]\<close> is falsy; the latter holds when the fetched mapping has no
  entry for the login and the login is not a name that the object inherits from
  \<open>Object.prototype\<close>. A fetched entry is never replaced by the merge. The old cache
  \<open>{A: profileA, B: profileB}\<close> and the fetch \<open>{A: profileA2}\<close> give
  \<open>{A: profileA2, B: profileB}\<close>.
\<close>

theorem users_merge:
  "(map_of old k = Some v \<and> truthy v \<and> \<not> obj_truthy g k
      \<longrightarrow> map_of (own_props (merge_users old g)) k = Some v)
   \<and> (map_of (own_props g) k = None \<and> prototype g = None
        \<and> k \<notin> set object_prototype_names \<longrightarrow> \<not> obj_truthy g k)
   \<and> (map_of (own_props (snd (fetch_batches net cs 0 empty_obj))) k = Some v'
      \<longrightarrow> map_of (own_props (merge_users old (snd (fetch_batches net cs 0 empty_obj)))) k
            = Some v')
   \<and> (truthy pA2 \<and> truthy pB
      \<longrightarrow> own_props (merge_users [(''A'', pA), (''B'', pB)]
                        \<lparr>own_props = [(''A'', pA2)], prototype = None\<rparr>)
            = [(''A'', pA2), (''B'', pB)])"
proof (intro conjI impI)
  assume "map_of old k = Some v \<and> truthy v \<and> \<not> obj_truthy g k"
  then show "map_of (own_props (merge_users old g)) k = Some v"
    by (auto intro: merge_users_carries)
next
  assume "map_of (own_props g) k = None \<and> prototype g = None
        \<and> k \<notin> set object_prototype_names"
  then show "\<not> obj_truthy g k"
    using obj_truthy_absent [of g k] by blast
next
  let ?g = "snd (fetch_batches net cs 0 empty_obj)"
  assume a: "map_of (own_props ?g) k = Some v'"
  then have "v' \<in> snd ` set (own_props ?g)"
    by (auto dest: map_of_SomeD intro: rev_image_eqI)
  with fetched_values [of net cs] have "truthy v'"
    by auto
  with a show "map_of (own_props (merge_users old ?g)) k = Some v'"
    by (rule merge_users_keeps)
next
  assume "truthy pA2 \<and> truthy pB"
  then show "own_props (merge_users [(''A'', pA), (''B'', pB)]
                        \<lparr>own_props = [(''A'', pA2)], prototype = None\<rparr>)
            = [(''A'', pA2), (''B'', pB)]"
    by (simp add: merge_users_def obj_truthy_def inherited_truthy_def
        object_prototype_names_def obj_assign_def)
qed

theorem users_merge_witness:
  "map_of (own_props
      (merge_users [(''A'', example_profile ''A''), (''B'', example_profile ''B'')]
         (snd (fetch_batches (\<lambda>j i. Responds 200 NoReset (Some (example_profile ''A2'')))
                 [\<lparr>github = ''A''\<rparr>] 0 empty_obj)))) ''B''
     = Some (example_profile ''B'')
   \<and> map_of (own_props
      (merge_users [(''A'', example_profile ''A''), (''B'', example_profile ''B'')]
         (snd (fetch_batches (\<lambda>j i. Responds 200 NoReset (Some (example_profile ''A2'')))
                 [\<lparr>github = ''A''\<rparr>] 0 empty_obj)))) ''A''
     = Some (example_profile ''A2'')
   \<and> own_props (merge_users [(''A'', example_profile ''A''), (''B'', example_profile ''B'')]
                \<lparr>own_props = [(''A'', example_profile ''A2'')], prototype = None\<rparr>)
     = [(''A'', example_profile ''A2''), (''B'', example_profile ''B'')]"
proof -
  let ?old = "[(''A'', example_profile ''A''), (''B'', example_profile ''B'')]"
  let ?net = "\<lambda>j i. Responds 200 NoReset (Some (example_profile ''A2''))"
  let ?cs = "[\<lparr>github = ''A''\<rparr>]"
  let ?g = "snd (fetch_batches ?net ?cs 0 empty_obj)"
  have g: "?g = \<lparr>own_props = [(''A'', example_profile ''A2'')], prototype = None\<rparr>"
    by (rule fetched_one) simp
  note tB = users_merge [of ?old "''B''" "example_profile ''B''" ?g ?net ?cs
      "example_profile ''B''" "example_profile ''A2''" "example_profile ''B''"
      "example_profile ''A''"]
  note tA = users_merge [of ?old "''A''" "example_profile ''A''" ?g ?net ?cs
      "example_profile ''A2''" "example_profile ''A2''" "example_profile ''B''"
      "example_profile ''A''"]
  have tr: "truthy (example_profile ''A2'') \<and> truthy (example_profile ''B'')"
    by (simp add: example_profile_def)
  have "map_of (own_props ?g) ''B'' = None \<and> prototype ?g = None
        \<and> ''B'' \<notin> set object_prototype_names"
    by (simp add: g object_prototype_names_def)
  with tB [THEN conjunct2, THEN conjunct1] have nt: "\<not> obj_truthy ?g ''B''"
    by (rule mp)
  have "map_of ?old ''B'' = Some (example_profile ''B'') \<and> truthy (example_profile ''B'')
      \<and> \<not> obj_truthy ?g ''B''"
    using nt tr by simp
  with tB [THEN conjunct1] have b: "map_of (own_props (merge_users ?old ?g)) ''B'' =
      Some (example_profile ''B'')"
    by (rule mp)
  have "map_of (own_props ?g) ''A'' = Some (example_profile ''A2'')"
    by (simp add: g)
  with tA [THEN conjunct2, THEN conjunct2, THEN conjunct1]
  have a: "map_of (own_props (merge_users ?old ?g)) ''A'' = Some (example_profile ''A2'')"
    by (rule mp)
  from tB [THEN conjunct2, THEN conjunct2, THEN conjunct2] tr
  have ex: "own_props (merge_users ?old
        \<lparr>own_props = [(''A'', example_profile ''A2'')], prototype = None\<rparr>) =
      [(''A'', example_profile ''A2''), (''B'', example_profile ''B'')]"
    by (rule mp)
  show ?thesis
    using b a ex by (intro conjI)
qed





section \<open>The logins of a persisted snapshot\<close>

lemma fetched_keys:
  assumes "''__proto__'' \<notin> github ` set cs"
  shows "fst ` set (own_props (snd (fetch_batches net cs 0 empty_obj))) =
    {github (cs ! j) | j. j < length cs \<and> truthy (fetch_results net cs ! j)}"
proof -
  have "fst ` set (own_props (attach cs (fetch_results net cs) empty_obj)) =
      {github c | c r. (c, r) \<in> set (zip cs (fetch_results net cs)) \<and> truthy r
         \<and> github c \<noteq> ''__proto__''}"
    by (simp add: attach_keys empty_obj_def)
  also have "\<dots> = {github (cs ! j) | j. j < length cs \<and> truthy (fetch_results net cs ! j)}"
  proof (intro equalityI subsetI)
    fix k assume "k \<in> {github c | c r. (c, r) \<in> set (zip cs (fetch_results net cs)) \<and> truthy r
         \<and> github c \<noteq> ''__proto__''}"
    then show "k \<in> {github (cs ! j) | j. j < length cs \<and> truthy (fetch_results net cs ! j)}"
      by (auto simp: in_set_zip)
  next
    fix k assume "k \<in> {github (cs ! j) | j. j < length cs \<and> truthy (fetch_results net cs ! j)}"
    then obtain j where j: "k = github (cs ! j)" "j < length cs"
        "truthy (fetch_results net cs ! j)"
      by auto
    then have "cs ! j \<in> set cs" by simp
    with assms have "github (cs ! j) \<noteq> ''__proto__''" by (metis imageI)
    moreover have "(cs ! j, fetch_results net cs ! j) \<in> set (zip cs (fetch_results net cs))"
      using j(2) by (auto simp: in_set_zip length_fetch_results)
    ultimately show "k \<in> {github c | c r. (c, r) \<in> set (zip cs (fetch_results net cs))
         \<and> truthy r \<and> github c \<noteq> ''__proto__''}"
      using j(1,3) by blast
  qed
  finally show ?thesis
    using batches_refine_from [of net cs 0 empty_obj] by simp
qed

lemma fetched_prototype:
  assumes "''__proto__'' \<notin> github ` set cs"
  shows "prototype (snd (fetch_batches net cs 0 empty_obj)) = None"
  using assms batches_refine_from [of net cs 0 empty_obj] attach_prototype [of cs _ empty_obj]
  by (simp add: empty_obj_def)

lemma merged_keys:
  assumes "''__proto__'' \<notin> github ` set cs"
    and "\<forall>k \<in> fst ` set old. k \<notin> set object_prototype_names"
  shows "fst ` set (own_props (merge_users old (snd (fetch_batches net cs 0 empty_obj)))) =
    {github (cs ! j) | j. j < length cs \<and> truthy (fetch_results net cs ! j)}
    \<union> {k. \<exists>v. (k, v) \<in> set old \<and> truthy v}"
proof -
  let ?g = "snd (fetch_batches net cs 0 empty_obj)"
  have t: "obj_truthy ?g k \<longleftrightarrow> k \<in> fst ` set (own_props ?g)"
    if "k \<notin> set object_prototype_names" for k
  proof (cases "map_of (own_props ?g) k")
    case None
    then have "k \<notin> fst ` set (own_props ?g)"
      by (simp add: map_of_eq_None_iff)
    moreover have "\<not> obj_truthy ?g k"
      using None fetched_prototype [OF assms(1)] that by (rule obj_truthy_absent)
    ultimately show ?thesis by simp
  next
    case (Some w)
    then have in_set: "(k, w) \<in> set (own_props ?g)"
      by (rule map_of_SomeD)
    then have "w \<in> snd ` set (own_props ?g)"
      by (auto intro: rev_image_eqI)
    with fetched_values [of net cs] have "truthy w" by auto
    with Some in_set show ?thesis
      by (auto simp: obj_truthy_def intro: rev_image_eqI)
  qed
  have "{k. \<exists>v. (k, v) \<in> set old \<and> truthy v \<and> \<not> obj_truthy ?g k} \<union> fst ` set (own_props ?g) =
      {k. \<exists>v. (k, v) \<in> set old \<and> truthy v} \<union> fst ` set (own_props ?g)"
  proof (intro equalityI subsetI)
    fix k assume "k \<in> {k. \<exists>v. (k, v) \<in> set old \<and> truthy v \<and> \<not> obj_truthy ?g k}
        \<union> fst ` set (own_props ?g)"
    then show "k \<in> {k. \<exists>v. (k, v) \<in> set old \<and> truthy v} \<union> fst ` set (own_props ?g)"
      by auto
  next
    fix k assume a: "k \<in> {k. \<exists>v. (k, v) \<in> set old \<and> truthy v} \<union> fst ` set (own_props ?g)"
    show "k \<in> {k. \<exists>v. (k, v) \<in> set old \<and> truthy v \<and> \<not> obj_truthy ?g k}
        \<union> fst ` set (own_props ?g)"
    proof (cases "k \<in> fst ` set (own_props ?g)")
      case True
      then show ?thesis by simp
    next
      case False
      with a obtain v where v: "(k, v) \<in> set old" "truthy v" by auto
      then have "k \<in> fst ` set old" by (auto intro: rev_image_eqI)
      with assms(2) have "k \<notin> set object_prototype_names" by blast
      with t False have "\<not> obj_truthy ?g k" by simp
      with v show ?thesis by auto
    qed
  qed
  then show ?thesis
    by (simp add: merge_users_keys fetched_keys [OF assms(1)] Un_commute)
qed


lemma merged_truthy:
  "\<forall>w \<in> snd ` set (own_props (merge_users old (snd (fetch_batches net cs 0 empty_obj)))).
     truthy w"
proof (rule merge_users_values)
  show "\<forall>w \<in> snd ` set (own_props (snd (fetch_batches net cs 0 empty_obj))). truthy w"
    using fetched_values [of net cs] by fastforce
  show "\<forall>d \<in> snd ` set old. truthy d \<longrightarrow> truthy d"
    by simp
qed

lemma regenerate_keys:
  assumes "contributors_json fs = Featured cs" and "regenerate e fs net = Some out"
  shows "persisted_keys out =
    map fst (filter (\<lambda>(k, v). v \<noteq> JUndefined)
      (own_props (merge_users (cached_users fs)
         (snd (fetch_batches (users_net net) cs 0 empty_obj)))))"
  using assms
  by (auto simp: regenerate_def Let_def persisted_keys_def cached_users_def
      written_snapshot_def merge_users_Nil comp_def case_prod_beta
      split: prod.splits option.splits)

lemma regenerate_defined:
  assumes "fetchRepoContributors (repo_net net) \<noteq> None"
  shows "regenerate e fs net \<noteq> None"
  using assms
  by (auto simp: regenerate_def Let_def fatal_def
      split: input_file.splits prod.splits option.splits)

text \<open>
  Claim C8, as the claim states it, fails: with an empty list of featured contributors
  and an old snapshot that has a profile for \<open>octocat\<close>, the snapshot that the run writes
  has the login \<open>octocat\<close>, which is not in the list.
\<close>

theorem snapshot_keys_counterexample:
  "contributors_json \<lparr>contributors_json = Featured [], cache_json = Some example_cache\<rparr>
     = Featured []
   \<and> map_option persisted_keys
       (main (example_env\<lparr>force := True\<rparr>)
          \<lparr>contributors_json = Featured [], cache_json = Some example_cache\<rparr> example_net)
     = Some [''octocat'']"
  by (simp add: main_def regenerate_def Let_def batches_Nil repo_example example_env_def
      example_net_def example_cache_def merge_users_def empty_obj_def obj_truthy_def
      inherited_truthy_def object_prototype_names_def obj_assign_def example_profile_def
      use_cached_repo_def merge_repo_def persisted_keys_def written_snapshot_def)


text \<open>
  Claim C8, amended. In the snapshot that a run writes, the logins of \<open>githubUsers\<close> are
  exactly the featured logins whose fetch gave a profile in this run, together with the
  logins of the old snapshot whose stored value is truthy; a login of the old snapshot
  stays whether or not it is still in the list. This is stated for featured logins other
  than \<open>__proto__\<close> and for old logins that are not names of \<open>Object.prototype\<close>.
\<close>

theorem snapshot_keys:
  assumes "contributors_json fs = Featured cs"
    and "force e \<or> \<not> isCacheValid e (cache_json fs)"
    and "main e fs net = Some out"
    and "''__proto__'' \<notin> github ` set cs"
    and "\<forall>k \<in> fst ` set (cached_users fs). k \<notin> set object_prototype_names"
  shows "set (persisted_keys out) =
    {github (cs ! j) | j. j < length cs \<and> truthy (fetch_results (users_net net) cs ! j)}
    \<union> {k. \<exists>v. (k, v) \<in> set (cached_users fs) \<and> truthy v}"
proof -
  let ?m = "merge_users (cached_users fs) (snd (fetch_batches (users_net net) cs 0 empty_obj))"
  from assms(2,3) have "regenerate e fs net = Some out"
    by (auto simp: main_def)
  from regenerate_keys [OF assms(1) this]
  have "persisted_keys out = map fst (filter (\<lambda>(k, v). v \<noteq> JUndefined) (own_props ?m))" .
  moreover have "filter (\<lambda>(k, v). v \<noteq> JUndefined) (own_props ?m) = own_props ?m"
    using merged_truthy [of "cached_users fs" "users_net net" cs]
    by (intro filter_True) fastforce
  ultimately have "set (persisted_keys out) = fst ` set (own_props ?m)"
    by simp
  then show ?thesis
    by (simp add: merged_keys [OF assms(4,5)])
qed

theorem snapshot_keys_witness:
  "set (persisted_keys (the
     (main (example_env\<lparr>force := True\<rparr>)
        \<lparr>contributors_json = Featured [\<lparr>github = ''A''\<rparr>], cache_json = Some example_cache\<rparr>
        \<lparr>users_net = (\<lambda>j i. Responds 200 NoReset (Some (example_profile ''A''))),
         repo_net = mock_api [2]\<rparr>)))
   = {''A'', ''octocat''}"
proof -
  let ?e = "example_env\<lparr>force := True\<rparr>"
  let ?cs = "[\<lparr>github = ''A''\<rparr>]"
  let ?fs = "\<lparr>contributors_json = Featured ?cs, cache_json = Some example_cache\<rparr>"
  let ?un = "\<lambda>j i. Responds 200 NoReset (Some (example_profile ''A''))"
  let ?net = "\<lparr>users_net = ?un, repo_net = mock_api [2]\<rparr>"
  have h1: "contributors_json ?fs = Featured ?cs"
    by simp
  have h2: "force ?e \<or> \<not> isCacheValid ?e (cache_json ?fs)"
    by simp
  have "regenerate ?e ?fs ?net \<noteq> None"
    by (rule regenerate_defined) (simp add: repo_example)
  then have h3: "main ?e ?fs ?net = Some (the (main ?e ?fs ?net))"
    by (simp add: main_def)
  have h4: "''__proto__'' \<notin> github ` set ?cs"
    by simp
  have cu: "cached_users ?fs = [(''octocat'', example_profile ''octocat'')]"
    by (simp add: cached_users_def example_cache_def)
  have h5: "\<forall>k \<in> fst ` set (cached_users ?fs). k \<notin> set object_prototype_names"
    by (simp add: cu object_prototype_names_def)
  have "fetchGitHubUser (?un 0) ''A'' = ([Request (users_url ''A'')], example_profile ''A'')"
    by (rule fetch_user_ok [of _ NoReset "example_profile ''A''"]) (simp_all add: project_example)
  then have rs: "fetch_results ?un ?cs = [example_profile ''A'']"
    by (simp add: fetch_results_def)
  have new: "{github (?cs ! j) | j. j < length ?cs \<and> truthy (fetch_results ?un ?cs ! j)} = {''A''}"
    unfolding rs by (auto simp: example_profile_def)
  have old: "{k. \<exists>v. (k, v) \<in> set (cached_users ?fs) \<and> truthy v} = {''octocat''}"
    unfolding cu by (auto simp: example_profile_def)
  from snapshot_keys [OF h1 h2 h3 h4 h5]
  have "set (persisted_keys (the (main ?e ?fs ?net))) =
      {github (?cs ! j) | j. j < length ?cs \<and> truthy (fetch_results (users_net ?net) ?cs ! j)}
      \<union> {k. \<exists>v. (k, v) \<in> set (cached_users ?fs) \<and> truthy v}" .
  also have "\<dots> = {''A''} \<union> {''octocat''}"
    using new old by simp
  finally show ?thesis
    by auto
qed


end
